theory Spec2Isabelle
  imports Main "HOL-Library.AList"
begin

section \<open>Strings as Python sees them\<close>

text \<open>
  A Python \<open>str\<close> is modelled as a HOL \<open>string\<close>, one \<open>char\<close> per code point
  below 256. \<open>isspace\<close> lists the code points below 256 for which Python's
  \<open>str.isspace\<close> holds, so \<open>strip\<close> is \<open>str.strip()\<close> on such strings.
  \<open>lower\<close> is \<open>str.lower()\<close> on the ASCII letters.
\<close>

definition isspace :: "char \<Rightarrow> bool" where
  "isspace c = (of_char c \<in> {9, 10, 11, 12, 13, 28, 29, 30, 31, 32, 133, 160 :: nat})"

definition strip :: "string \<Rightarrow> string" where
  "strip s = rev (dropWhile isspace (rev (dropWhile isspace s)))"



fun startswith :: "string \<Rightarrow> string \<Rightarrow> bool" where
  "startswith s [] = True"
| "startswith [] (p # ps) = False"
| "startswith (c # cs) (p # ps) = (c = p \<and> startswith cs ps)"


text \<open>\<open>contains s p\<close> is Python's \<open>p in s\<close> on strings.\<close>

fun contains :: "string \<Rightarrow> string \<Rightarrow> bool" where
  "contains [] p = (p = [])"
| "contains (c # cs) p = (startswith (c # cs) p \<or> contains cs p)"

section \<open>The credential file parser\<close>

text \<open>
  \<open>re.split(r"[\r\n]+", raw)\<close>: the pieces between the maximal runs of CR and LF. A run at
  the start or at the end of the text leaves an empty piece there, as in Python. \<open>cur\<close> is
  the piece being read, reversed; \<open>insep\<close> says that the previous character was CR or LF.
\<close>

definition is_crlf :: "char \<Rightarrow> bool" where
  "is_crlf c = (c = CHR 0x0D \<or> c = CHR 0x0A)"

fun re_split_crlf :: "string \<Rightarrow> string \<Rightarrow> bool \<Rightarrow> string list" where
  "re_split_crlf [] cur insep = [rev cur]"
| "re_split_crlf (c # cs) cur insep =
     (if is_crlf c then
        (if insep then re_split_crlf cs cur True else rev cur # re_split_crlf cs [] True)
      else re_split_crlf cs (c # cur) False)"

text \<open>
  \<open>line.split(":", 1)\<close> on a line that has a colon: the text before the first colon and
  the text after it.
\<close>

definition before_colon :: "string \<Rightarrow> string" where
  "before_colon line = takeWhile (\<lambda>c. c \<noteq> CHR '':'') line"

definition after_colon :: "string \<Rightarrow> string" where
  "after_colon line = drop 1 (dropWhile (\<lambda>c. c \<noteq> CHR '':'') line)"

text \<open>The body of the loop of \<open>parse_logpass_file\<close>, for one piece \<open>ln\<close>.\<close>

definition parse_line :: "string \<Rightarrow> (string \<times> string) option" where
  "parse_line ln =
     (let line = strip ln in
      if line = [] \<or> startswith line ''#'' then None
      else if CHR '':'' \<notin> set line then None
      else
        (let login = strip (before_colon line); pwd = strip (after_colon line) in
         if login \<noteq> [] \<and> pwd \<noteq> [] then Some (login, pwd) else None))"

text \<open>The loop: \<open>out\<close> collects the pairs in the order of the lines.\<close>

fun parse_lines :: "string list \<Rightarrow> (string \<times> string) list \<Rightarrow> (string \<times> string) list" where
  "parse_lines [] out = out"
| "parse_lines (ln # lns) out =
     (case parse_line ln of
        None \<Rightarrow> parse_lines lns out
      | Some p \<Rightarrow> parse_lines lns (out @ [p]))"

text \<open>
  \<open>parse_logpass_file\<close>: the argument is the decoded text of the file, or \<open>None\<close> when the
  path does not exist.
\<close>

definition parse_logpass_file :: "string option \<Rightarrow> (string \<times> string) list" where
  "parse_logpass_file f =
     (case f of
        None \<Rightarrow> []
      | Some raw \<Rightarrow> parse_lines (re_split_crlf raw [] False) [])"

section \<open>Locations\<close>




section \<open>The import walker\<close>

text \<open>
  \<open>ImportLogPassController\<close>. \<open>index\<close> is a Python int. The effects of a handler on the
  rest of the application are returned as a list; status-bar messages are left out.
\<close>

record walker =
  lines :: "(string \<times> string) list"
  index :: int
  active :: bool


datatype walker_effect =
    NavigateToLogin
  | CopyToClipboard string
  | SetLastImportIndex int
  | NotifyAllProcessed
  | EmitStopped
  | RaiseIndexError

definition walker_init :: "(string \<times> string) list \<Rightarrow> int \<Rightarrow> walker" where
  "walker_init lns start_index =
     \<lparr> lines = lns, index = max 0 (min start_index (int (length lns))), active = True \<rparr>"

text \<open>
  The context menu asks for a 1-based line number \<open>idx\<close> and starts the walker at
  \<open>idx - 1\<close>.
\<close>

definition walker_from_user :: "(string \<times> string) list \<Rightarrow> int \<Rightarrow> walker" where
  "walker_from_user lns idx = walker_init lns (idx - 1)"

definition stop :: "walker \<Rightarrow> walker \<times> walker_effect list" where
  "stop w = (if \<not> active w then (w, []) else (w\<lparr>active := False\<rparr>, [EmitStopped]))"

definition finishAll :: "walker \<Rightarrow> walker \<times> walker_effect list" where
  "finishAll w = (let (w', es) = stop w in (w', NotifyAllProcessed # es))"

text \<open>Python's \<open>xs[i]\<close>: a negative index counts from the end, out of range raises.\<close>

definition py_index :: "'a list \<Rightarrow> int \<Rightarrow> 'a option" where
  "py_index xs i =
     (let n = int (length xs); j = (if i < 0 then n + i else i) in
      if 0 \<le> j \<and> j < n then Some (xs ! nat j) else None)"








section \<open>The health monitor of one view\<close>

text \<open>
  The recovery state of a \<open>BrowserView\<close> and of its \<open>Page\<close>. \<open>last_fix_ms\<close> is the
  attribute of the page; \<open>lastRenderReloadMs\<close> is \<open>_lastRenderReloadMs\<close>, read with the
  default 0; \<open>last_blank_fix_ms\<close> and \<open>blank_fix_tries\<close> are the dynamic properties
  \<open>_last_blank_fix_ms\<close> and \<open>_blank_fix_tries\<close>, read as 0 while unset. \<open>url\<close> is
  \<open>url().toString()\<close>. Clock readings (\<open>QDateTime.currentMSecsSinceEpoch()\<close>) are inputs.
\<close>

record view =
  profile_name :: string
  url :: string
  last_fix_ms :: int
  lastRenderReloadMs :: int
  last_blank_fix_ms :: int
  blank_fix_tries :: int

definition new_view :: "string \<Rightarrow> view" where
  "new_view name =
     \<lparr> profile_name = name, url = [], last_fix_ms = 0, lastRenderReloadMs = 0,
       last_blank_fix_ms = 0, blank_fix_tries = 0 \<rparr>"

text \<open>
  What a handler asks of the engine and of the timers: a cache-bypassing reload at once,
  the same behind a 150 ms single-shot timer, the page's HTML (answered through
  \<open>after_html\<close>), the 400 ms timer of \<open>_postBlankJS\<close>, the evaluation of the blank-page
  script (answered through \<open>_maybeReloadOnBlank\<close>), a warning in the log.
\<close>

datatype action = ReloadNow | ReloadAfter150 | RequestHtml | StartBlankTimer | RunBlankScript | Warn

definition fatal_substrings :: "string list" where
  "fatal_substrings = [''ChunkLoadError'', ''jQuery is not defined'', ''Prototype is not defined'']"

text \<open>
  \<open>Page.javaScriptConsoleMessage\<close>: \<open>is_error\<close> says that the level is the error level,
  \<open>cur\<close> is the owner's \<open>current_name\<close> property at the call, \<open>now\<close> the clock.
\<close>

definition javaScriptConsoleMessage :: "view \<Rightarrow> bool \<Rightarrow> string \<Rightarrow> string \<Rightarrow> int \<Rightarrow> view \<times> action list" where
  "javaScriptConsoleMessage v is_error msg cur now =
     (let log = (if is_error then [Warn] else []) in
      if list_ex (\<lambda>s. contains msg s) fatal_substrings then
        (if cur \<noteq> profile_name v then (v, log)
         else if now - last_fix_ms v > 5000 then (v\<lparr>last_fix_ms := now\<rparr>, log @ [ReloadAfter150])
         else (v, log))
      else (v, log))"

definition onRenderCrash :: "view \<Rightarrow> string \<Rightarrow> int \<Rightarrow> view \<times> action list" where
  "onRenderCrash v cur now =
     (if cur \<noteq> profile_name v then (v, [])
      else if now - lastRenderReloadMs v < 5000 then (v, [])
      else (v\<lparr>lastRenderReloadMs := now\<rparr>, [ReloadAfter150]))"

definition postLoadHealthcheck :: "view \<Rightarrow> string \<Rightarrow> action list" where
  "postLoadHealthcheck v cur =
     (if cur \<noteq> profile_name v then []
      else if url v = [] \<or> url v = ''about:blank'' then []
      else [RequestHtml, StartBlankTimer])"

text \<open>\<open>after_html\<close>, the callback of \<open>toHtml\<close> inside \<open>postLoadHealthcheck\<close>.\<close>

definition after_html :: "view \<Rightarrow> string \<Rightarrow> int \<Rightarrow> view \<times> action list" where
  "after_html v html now =
     (let h = strip html in
      if h \<noteq> [] \<and> length h \<ge> 50 then (v\<lparr>blank_fix_tries := 0\<rparr>, [])
      else if blank_fix_tries v < 3 \<and> now - last_blank_fix_ms v > 5000
      then (v\<lparr>last_blank_fix_ms := now, blank_fix_tries := blank_fix_tries v + 1\<rparr>, [ReloadNow])
      else (v, []))"

definition postBlankJS :: "view \<Rightarrow> action list" where
  "postBlankJS v = [RunBlankScript]"

text \<open>
  The value the script evaluation hands to \<open>_maybeReloadOnBlank\<close>: a dictionary, given by
  the truth value of each of its entries, or anything else.
\<close>

datatype js_result = JsDict "(string \<times> bool) list" | JsOther

definition isBlank :: "js_result \<Rightarrow> bool" where
  "isBlank res =
     (case res of
        JsDict kv \<Rightarrow> (case map_of kv ''empty'' of Some b \<Rightarrow> b | None \<Rightarrow> False)
      | JsOther \<Rightarrow> False)"

definition maybeReloadOnBlank :: "view \<Rightarrow> js_result \<Rightarrow> int \<Rightarrow> view \<times> action list" where
  "maybeReloadOnBlank v res now =
     (if isBlank res \<and> now - last_blank_fix_ms v > 5000 \<and> blank_fix_tries v < 3
      then (v\<lparr>last_blank_fix_ms := now, blank_fix_tries := blank_fix_tries v + 1\<rparr>, [ReloadNow])
      else (v, []))"

text \<open>
  The three detectors, the signals that reach them, and the reloads a view decides over a
  run of signals: each with its detector and the clock reading of the decision.
\<close>

datatype detector = ConsoleDetector | CrashDetector | BlankDetector

datatype health_event =
    ConsoleMessage bool string string int
  | RenderCrash string int
  | HtmlResult string int
  | ScriptResult js_result int

fun health_step :: "view \<Rightarrow> health_event \<Rightarrow> view \<times> action list" where
  "health_step v (ConsoleMessage is_error msg cur now) = javaScriptConsoleMessage v is_error msg cur now"
| "health_step v (RenderCrash cur now) = onRenderCrash v cur now"
| "health_step v (HtmlResult html now) = after_html v html now"
| "health_step v (ScriptResult res now) = maybeReloadOnBlank v res now"

fun event_detector :: "health_event \<Rightarrow> detector" where
  "event_detector (ConsoleMessage is_error msg cur now) = ConsoleDetector"
| "event_detector (RenderCrash cur now) = CrashDetector"
| "event_detector (HtmlResult html now) = BlankDetector"
| "event_detector (ScriptResult res now) = BlankDetector"

fun event_time :: "health_event \<Rightarrow> int" where
  "event_time (ConsoleMessage is_error msg cur now) = now"
| "event_time (RenderCrash cur now) = now"
| "event_time (HtmlResult html now) = now"
| "event_time (ScriptResult res now) = now"

definition is_reload :: "action \<Rightarrow> bool" where
  "is_reload a = (a = ReloadNow \<or> a = ReloadAfter150)"

fun reloads :: "view \<Rightarrow> health_event list \<Rightarrow> (detector \<times> int) list" where
  "reloads v [] = []"
| "reloads v (e # es) =
     (if list_ex is_reload (snd (health_step v e)) then [(event_detector e, event_time e)] else [])
     @ reloads (fst (health_step v e)) es"

definition health_run :: "view \<Rightarrow> health_event list \<Rightarrow> view" where
  "health_run v es = foldl (\<lambda>v e. fst (health_step v e)) v es"

text \<open>The clock readings of the reloads one detector decides over a run.\<close>

definition reload_times :: "detector \<Rightarrow> view \<Rightarrow> health_event list \<Rightarrow> int list" where
  "reload_times d v es = map snd (filter (\<lambda>r. fst r = d) (reloads v es))"

text \<open>The time stamp a detector keeps of its last reload.\<close>

fun stamp :: "detector \<Rightarrow> view \<Rightarrow> int" where
  "stamp ConsoleDetector v = last_fix_ms v"
| "stamp CrashDetector v = lastRenderReloadMs v"
| "stamp BlankDetector v = last_blank_fix_ms v"

text \<open>
  The distance a detector keeps between two of its reloads: more than 5000 ms for the
  console and blank detectors, at least 5000 ms for the crash detector.
\<close>

definition apart :: "detector \<Rightarrow> int \<Rightarrow> int \<Rightarrow> bool" where
  "apart d a b = (if d = CrashDetector then a + 5000 \<le> b else a + 5000 < b)"

text \<open>A blank-check signal that judges the page blank.\<close>

fun judges_blank :: "health_event \<Rightarrow> bool" where
  "judges_blank (HtmlResult html now) = (\<not> (strip html \<noteq> [] \<and> length (strip html) \<ge> 50))"
| "judges_blank (ScriptResult res now) = isBlank res"
| "judges_blank (ConsoleMessage is_error msg cur now) = False"
| "judges_blank (RenderCrash cur now) = False"

section \<open>The persisted document\<close>

text \<open>
  The value \<open>json.loads\<close> returns and \<open>json.dumps\<close> takes: the config file holds a
  document, and the text between is the library's work. Numbers are the integers.
  A config file is missing, unreadable as JSON, or holds a document.
\<close>

datatype json = JNull | JBool bool | JInt int | JStr string | JList "json list" | JObj "(string \<times> json) list"

datatype config_file = Missing | Unparsable | Document json

datatype error = KeyError | TypeError | AttributeError | ValueError

text \<open>\<open>d.get(k, default)\<close> on a dictionary kept as an association list.\<close>

definition dict_get :: "(string \<times> 'a) list \<Rightarrow> string \<Rightarrow> 'a \<Rightarrow> 'a" where
  "dict_get d k dflt = (case map_of d k of None \<Rightarrow> dflt | Some x \<Rightarrow> x)"

text \<open>
  Python's built-ins on a loaded value. \<open>str(x)\<close> is \<open>x\<close> on a string; on every other
  value it is Python's rendering of the value, taken as the parameter \<open>repr\<close>. \<open>int(x)\<close>
  on a string is Python's parser, the parameter \<open>atoi\<close>. Iterating a list gives its
  elements, a dictionary its keys, a string its characters.
\<close>

definition py_str :: "(json \<Rightarrow> string) \<Rightarrow> json \<Rightarrow> string" where
  "py_str repr j = (case j of JStr s \<Rightarrow> s | _ \<Rightarrow> repr j)"

definition py_bool :: "json \<Rightarrow> bool" where
  "py_bool j =
     (case j of
        JNull \<Rightarrow> False
      | JBool b \<Rightarrow> b
      | JInt i \<Rightarrow> i \<noteq> 0
      | JStr s \<Rightarrow> s \<noteq> []
      | JList xs \<Rightarrow> xs \<noteq> []
      | JObj kv \<Rightarrow> kv \<noteq> [])"

definition py_int :: "(string \<Rightarrow> int option) \<Rightarrow> json \<Rightarrow> error + int" where
  "py_int atoi j =
     (case j of
        JInt i \<Rightarrow> Inr i
      | JBool b \<Rightarrow> Inr (if b then 1 else 0)
      | JStr s \<Rightarrow> (case atoi s of None \<Rightarrow> Inl ValueError | Some i \<Rightarrow> Inr i)
      | _ \<Rightarrow> Inl TypeError)"

definition py_iter :: "json \<Rightarrow> error + json list" where
  "py_iter j =
     (case j of
        JList xs \<Rightarrow> Inr xs
      | JObj kv \<Rightarrow> Inr (map (\<lambda>p. JStr (fst p)) kv)
      | JStr s \<Rightarrow> Inr (map (\<lambda>c. JStr [c]) s)
      | _ \<Rightarrow> Inl TypeError)"

section \<open>The main window\<close>

text \<open>
  A popup window: its identity and whether it is shown. The callbacks the engine and the
  timers owe a view: the 1000 ms check of \<open>createProfile\<close>, the 800 ms timer of
  \<open>_onProgress\<close>, the answer of \<open>toHtml\<close>, the 400 ms timer of \<open>_postBlankJS\<close>, the answer
  of the script, the 150 ms timer before a reload.
\<close>

record popup =
  pid :: nat
  visible :: bool

datatype callback = StartupCheck | HealthTimer | HtmlCallback | BlankTimer | ScriptCallback | ReloadTimer

text \<open>
  \<open>MultiBrowser\<close>, with the world it acts on: the config file, the profile directories on
  disk (paths under the application data directory), the warnings logged, the callbacks
  still owed, and the reloads issued, each with the view it went to and the name focused
  at that moment. \<open>geometry\<close> is what \<open>saveGeometry().toHex()\<close> gives. The widgets (layout,
  account list, address bar, status bar) are left out.
\<close>

record mb =
  profiles :: "string list"
  lastActive :: string
  currentName :: string
  browsers :: "(string \<times> view) list"
  popupsByProfile :: "(string \<times> popup list) list"
  lastUrls :: "(string \<times> string) list"
  accountsVisible :: bool
  accountsPanelDefaultWidth :: int
  leftBarWidth :: int
  geometry :: string
  config :: config_file
  dirs :: "string set"
  warnings :: "string list"
  pending :: "(string \<times> callback) list"
  reload_log :: "(string \<times> string) list"
  next_pid :: nat

definition fresh :: "config_file \<Rightarrow> string set \<Rightarrow> mb" where
  "fresh cfg ds =
     \<lparr> profiles = [], lastActive = [], currentName = [], browsers = [],
       popupsByProfile = [], lastUrls = [], accountsVisible = False,
       accountsPanelDefaultWidth = 320, leftBarWidth = 160, geometry = [],
       config = cfg, dirs = ds, warnings = [], pending = [], reload_log = [],
       next_pid = 0 \<rparr>"

definition DEFAULT_HOME_URL :: string where
  "DEFAULT_HOME_URL = ''https://steamcommunity.com/''"

subsection \<open>Config\<close>

definition config_doc :: "mb \<Rightarrow> json" where
  "config_doc s =
     JObj [(''profiles'', JList (map JStr (profiles s))),
           (''last_active'', JStr (lastActive s)),
           (''last_urls'', JObj (map (\<lambda>p. (fst p, JStr (snd p))) (lastUrls s))),
           (''accounts_visible'', JBool (accountsVisible s)),
           (''accounts_panel_width'', JInt (accountsPanelDefaultWidth s)),
           (''leftbar_width'', JInt (leftBarWidth s)),
           (''win_geometry'', JStr (geometry s))]"

definition saveConfig :: "mb \<Rightarrow> mb" where
  "saveConfig s = s\<lparr>config := Document (config_doc s)\<rparr>"

text \<open>
  \<open>loadConfig\<close>. An exception that the source does not catch is the \<open>Inl\<close> result. The
  toolkit's \<open>restoreGeometry\<close> is taken to accept a non-empty blob.
\<close>

definition loadConfig :: "(json \<Rightarrow> string) \<Rightarrow> (string \<Rightarrow> int option) \<Rightarrow> mb \<Rightarrow> error + mb" where
  "loadConfig repr atoi s =
     (case config s of
        Missing \<Rightarrow> Inr s
      | Unparsable \<Rightarrow> Inr s
      | Document doc \<Rightarrow>
          (case doc of
             JObj kv \<Rightarrow>
               (case py_iter (dict_get kv ''profiles'' (JList [])) of
                  Inl e \<Rightarrow> Inl e
                | Inr xs \<Rightarrow>
                    (let s1 = s\<lparr>profiles := map (py_str repr) xs,
                                lastActive := py_str repr (dict_get kv ''last_active'' (JStr []))\<rparr> in
                     case dict_get kv ''last_urls'' (JObj []) of
                       JObj urls \<Rightarrow>
                         (let s2 = s1\<lparr>lastUrls :=
                                        foldl (\<lambda>d p. AList.update (fst p) (py_str repr (snd p)) d) [] urls,
                                      accountsVisible :=
                                        py_bool (dict_get kv ''accounts_visible'' (JBool False))\<rparr> in
                          case py_int atoi (dict_get kv ''accounts_panel_width''
                                   (JInt (accountsPanelDefaultWidth s2))) of
                            Inl e \<Rightarrow> Inl e
                          | Inr w \<Rightarrow>
                              (case py_int atoi (dict_get kv ''leftbar_width'' (JInt (leftBarWidth s2))) of
                                 Inl e \<Rightarrow> Inl e
                               | Inr lw \<Rightarrow>
                                   (let s3 = s2\<lparr>accountsPanelDefaultWidth := w, leftBarWidth := lw\<rparr> in
                                    case dict_get kv ''win_geometry'' JNull of
                                      JStr g \<Rightarrow> Inr (if g \<noteq> [] then s3\<lparr>geometry := g\<rparr> else s3)
                                    | _ \<Rightarrow> Inr s3)))
                     | _ \<Rightarrow> Inl AttributeError))
           | _ \<Rightarrow> Inl AttributeError))"

subsection \<open>Popups\<close>

definition registerPopup :: "mb \<Rightarrow> string \<Rightarrow> popup \<Rightarrow> mb" where
  "registerPopup s profileName win =
     s\<lparr>popupsByProfile :=
         AList.update profileName (dict_get (popupsByProfile s) profileName [] @ [win])
           (popupsByProfile s)\<rparr>"

fun remove_window :: "nat \<Rightarrow> popup list \<Rightarrow> popup list" where
  "remove_window n [] = []"
| "remove_window n (w # ws) = (if pid w = n then ws else w # remove_window n ws)"

definition unregisterPopup :: "mb \<Rightarrow> string \<Rightarrow> nat \<Rightarrow> mb" where
  "unregisterPopup s profileName n =
     (case map_of (popupsByProfile s) profileName of
        None \<Rightarrow> s
      | Some arr \<Rightarrow>
          if arr = [] then s
          else if remove_window n arr = []
          then s\<lparr>popupsByProfile := AList.delete profileName (popupsByProfile s)\<rparr>
          else s\<lparr>popupsByProfile := AList.update profileName (remove_window n arr) (popupsByProfile s)\<rparr>)"

definition showPopupsFor :: "mb \<Rightarrow> string \<Rightarrow> mb" where
  "showPopupsFor s profileName =
     s\<lparr>popupsByProfile :=
         map (\<lambda>kw. (fst kw, map (\<lambda>w. w\<lparr>visible := (fst kw = profileName)\<rparr>) (snd kw)))
           (popupsByProfile s)\<rparr>"

text \<open>
  \<open>BrowserView.createWindow\<close> on a view of the profile \<open>profileName\<close>: the new window is
  registered and then shown or hidden.
\<close>

definition createWindow :: "mb \<Rightarrow> string \<Rightarrow> mb" where
  "createWindow s profileName =
     registerPopup (s\<lparr>next_pid := next_pid s + 1\<rparr>) profileName
       \<lparr>pid = next_pid s, visible = (currentName s = profileName)\<rparr>"

subsection \<open>Switching\<close>

definition blank_url :: "string \<Rightarrow> bool" where
  "blank_url u = (u = [] \<or> u = ''about:blank'')"

definition restore_url :: "mb \<Rightarrow> string \<Rightarrow> string" where
  "restore_url s acc =
     (let restore = dict_get (lastUrls s) acc [] in
      if restore \<noteq> [] then restore else DEFAULT_HOME_URL)"

definition switchAccount :: "mb \<Rightarrow> string \<Rightarrow> mb" where
  "switchAccount s acc =
     (case map_of (browsers s) acc of
        None \<Rightarrow> s
      | Some v \<Rightarrow>
          (let v' = (if blank_url (url v) then v\<lparr>url := restore_url s acc\<rparr> else v);
               s1 = s\<lparr>currentName := acc, browsers := AList.update acc v' (browsers s),
                      lastActive := acc\<rparr>
           in showPopupsFor (saveConfig s1) acc))"

definition navigateCurrent :: "mb \<Rightarrow> string \<Rightarrow> error + mb" where
  "navigateCurrent s u =
     (if currentName s = [] then Inr s
      else case map_of (browsers s) (currentName s) of
        None \<Rightarrow> Inl KeyError
      | Some v \<Rightarrow> Inr (s\<lparr>browsers := AList.update (currentName s) (v\<lparr>url := u\<rparr>) (browsers s)\<rparr>))"

subsection \<open>Profile directories\<close>

text \<open>
  \<open>profileDir\<close>: the path of the directory of a profile, for a name that is one path
  component, and the directories \<open>mkdir(parents=True, exist_ok=True)\<close> leaves on disk.
\<close>

definition profile_path :: "string \<Rightarrow> string" where
  "profile_path name = ''profiles/'' @ name"

definition profileDir :: "mb \<Rightarrow> string \<Rightarrow> mb" where
  "profileDir s name = s\<lparr>dirs := insert (profile_path name) (dirs s)\<rparr>"

subsection \<open>Profile names\<close>

text \<open>
  \<open>f"Steam {n}"\<close>: the decimal digits of \<open>n\<close> after the prefix. \<open>undecimal\<close> reads the
  digits back; it is used only to show that different numbers give different names.
\<close>

definition digit_char :: "nat \<Rightarrow> char" where
  "digit_char d = ''0123456789'' ! d"

fun decimal :: "nat \<Rightarrow> string" where
  "decimal n = (if n < 10 then [digit_char n] else decimal (n div 10) @ [digit_char (n mod 10)])"

declare decimal.simps [simp del]

definition steam_name :: "nat \<Rightarrow> string" where
  "steam_name n = ''Steam '' @ decimal n"

definition digit_val :: "char \<Rightarrow> nat" where
  "digit_val c = (case map_of (zip ''0123456789'' [0, 1, 2, 3, 4, 5, 6, 7, 8, 9]) c of Some d \<Rightarrow> d | None \<Rightarrow> 0)"

definition undecimal :: "string \<Rightarrow> nat" where
  "undecimal s = foldl (\<lambda>a c. 10 * a + digit_val c) 0 s"

lemma digit_val_digit_char: "d < 10 \<Longrightarrow> digit_val (digit_char d) = d"
proof -
  assume "d < 10"
  then consider "d = 0" | "d = 1" | "d = 2" | "d = 3" | "d = 4" | "d = 5" | "d = 6"
    | "d = 7" | "d = 8" | "d = 9"
    by (auto simp: numeral_eq_Suc less_Suc_eq)
  then show ?thesis
    by cases (simp_all add: digit_char_def digit_val_def)
qed

lemma undecimal_snoc: "undecimal (s @ [c]) = 10 * undecimal s + digit_val c"
  by (simp add: undecimal_def)

lemma undecimal_decimal: "undecimal (decimal n) = n"
proof (induction n rule: decimal.induct)
  case (1 n)
  show ?case
  proof (cases "n < 10")
    case True
    then show ?thesis
      using digit_val_digit_char [of n] by (simp add: decimal.simps [of n] undecimal_def)
  next
    case False
    then have "undecimal (decimal n) = 10 * undecimal (decimal (n div 10)) + digit_val (digit_char (n mod 10))"
      by (simp add: decimal.simps [of n] undecimal_snoc)
    also have "\<dots> = 10 * (n div 10) + n mod 10"
      using "1.IH" False digit_val_digit_char [of "n mod 10"] by simp
    finally show ?thesis by simp
  qed
qed

lemma inj_steam_name: "inj steam_name"
proof (rule injI)
  fix a b assume "steam_name a = steam_name b"
  then have "decimal a = decimal b" by (simp add: steam_name_def)
  then have "undecimal (decimal a) = undecimal (decimal b)" by simp
  then show "a = b" by (simp add: undecimal_decimal)
qed

lemma finite_steam_numbers: "finite {k. n \<le> k \<and> steam_name k \<in> set keys}"
proof -
  have "finite (steam_name -` set keys)"
    using inj_steam_name by (simp add: finite_vimageI)
  moreover have "{k. n \<le> k \<and> steam_name k \<in> set keys} \<subseteq> steam_name -` set keys"
    by auto
  ultimately show ?thesis by (rule rev_finite_subset)
qed

text \<open>
  The loop of \<open>nextSteamName\<close> from the counter \<open>n\<close>, over the names of the registry. It
  ends because the registry is finite and the names \<open>Steam n\<close> are all different.
\<close>

function next_steam_from :: "string list \<Rightarrow> nat \<Rightarrow> string" where
  "next_steam_from keys n =
     (if steam_name n \<in> set keys then next_steam_from keys (n + 1) else steam_name n)"
  by pat_completeness auto
termination
proof (relation "measure (\<lambda>p. card {k. snd p \<le> k \<and> steam_name k \<in> set (fst p)})")
  show "wf (measure (\<lambda>p. card {k. snd p \<le> k \<and> steam_name k \<in> set (fst p)}))"
    by simp
next
  fix keys :: "string list" and n :: nat
  assume h: "steam_name n \<in> set keys"
  have "n \<in> {k. n \<le> k \<and> steam_name k \<in> set keys}"
    and "n \<notin> {k. n + 1 \<le> k \<and> steam_name k \<in> set keys}"
    and "{k. n + 1 \<le> k \<and> steam_name k \<in> set keys} \<subseteq> {k. n \<le> k \<and> steam_name k \<in> set keys}"
    using h by auto
  then have "{k. n + 1 \<le> k \<and> steam_name k \<in> set keys} \<subset> {k. n \<le> k \<and> steam_name k \<in> set keys}"
    by blast
  then have "card {k. n + 1 \<le> k \<and> steam_name k \<in> set keys}
      < card {k. n \<le> k \<and> steam_name k \<in> set keys}"
    using finite_steam_numbers [of n keys] by (simp add: psubset_card_mono)
  then show "((keys, n + 1), (keys, n))
      \<in> measure (\<lambda>p. card {k. snd p \<le> k \<and> steam_name k \<in> set (fst p)})"
    by simp
qed

declare next_steam_from.simps [simp del]

definition nextSteamName :: "mb \<Rightarrow> string" where
  "nextSteamName s = next_steam_from (map fst (browsers s)) 1"

subsection \<open>Creating and deleting profiles\<close>

definition createProfile :: "mb \<Rightarrow> string \<Rightarrow> bool \<Rightarrow> mb" where
  "createProfile s name doSwitch =
     (let s1 = profileDir s name;
          s2 = s1\<lparr>browsers := AList.update name (new_view name) (browsers s1),
                 pending := pending s1 @ [(name, StartupCheck)]\<rparr>
      in if doSwitch then switchAccount s2 name else s2)"

text \<open>
  \<open>addAccount\<close>. The signal \<open>profileAdded\<close> it emits last reaches the import walker, whose
  events are modelled with the walker.
\<close>

definition addAccount :: "mb \<Rightarrow> error + mb" where
  "addAccount s =
     (let acc = nextSteamName s;
          s1 = createProfile s acc True;
          s2 = (if acc \<notin> set (profiles s1) then s1\<lparr>profiles := profiles s1 @ [acc]\<rparr> else s1);
          s3 = saveConfig (s2\<lparr>lastActive := acc\<rparr>)
      in case map_of (browsers s3) acc of
           None \<Rightarrow> Inl KeyError
         | Some v \<Rightarrow>
             if blank_url (url v) then navigateCurrent s3 (restore_url s3 acc) else Inr s3)"

text \<open>
  \<open>deleteProfile\<close>: \<open>confirmed\<close> is the operator's answer to the question, \<open>rmtree_ok\<close>
  says whether \<open>shutil.rmtree\<close> succeeds. The callbacks owed to the deleted view go with
  the view.
\<close>

definition deleteProfile :: "mb \<Rightarrow> string \<Rightarrow> bool \<Rightarrow> bool \<Rightarrow> mb" where
  "deleteProfile s name confirmed rmtree_ok =
     (if map_of (browsers s) name = None then s
      else if \<not> confirmed then s
      else
        (let s1 = s\<lparr>browsers := AList.delete name (browsers s),
                    pending := filter (\<lambda>p. fst p \<noteq> name) (pending s)\<rparr>;
             s2 = s1\<lparr>popupsByProfile := AList.delete name (popupsByProfile s1)\<rparr>;
             s3 = profileDir s2 name;
             s4 = (if rmtree_ok then s3\<lparr>dirs := dirs s3 - {profile_path name}\<rparr>
                   else s3\<lparr>warnings := warnings s3 @ [''Failed to remove profile dir'']\<rparr>);
             s5 = s4\<lparr>profiles := remove1 name (profiles s4),
                     lastUrls := AList.delete name (lastUrls s4)\<rparr>;
             s6 = saveConfig (s5\<lparr>lastActive := (case profiles s5 of [] \<Rightarrow> [] | p # ps \<Rightarrow> p)\<rparr>)
         in if lastActive s6 \<noteq> [] then switchAccount s6 (lastActive s6) else s6))"

text \<open>
  \<open>MultiBrowser._onUrlChanged\<close> for the view \<open>v\<close>, which now shows \<open>u\<close>. The signal
  \<open>currentUrlChanged\<close> it emits for the focused view reaches the import walker.
\<close>

definition MultiBrowser_onUrlChanged :: "mb \<Rightarrow> string \<Rightarrow> view \<Rightarrow> mb" where
  "MultiBrowser_onUrlChanged s u v =
     (if profile_name v \<noteq> []
      then saveConfig (s\<lparr>lastUrls := AList.update (profile_name v) u (lastUrls s)\<rparr>)
      else s)"

subsection \<open>Recovery in the main window\<close>

text \<open>
  What becomes of the actions of a view's handler: a reload is issued and logged with the
  focus of that moment, everything else is owed as a callback.
\<close>

fun apply_action :: "string \<Rightarrow> mb \<Rightarrow> action \<Rightarrow> mb" where
  "apply_action name s ReloadNow = s\<lparr>reload_log := reload_log s @ [(name, currentName s)]\<rparr>"
| "apply_action name s ReloadAfter150 = s\<lparr>pending := pending s @ [(name, ReloadTimer)]\<rparr>"
| "apply_action name s RequestHtml = s\<lparr>pending := pending s @ [(name, HtmlCallback)]\<rparr>"
| "apply_action name s StartBlankTimer = s\<lparr>pending := pending s @ [(name, BlankTimer)]\<rparr>"
| "apply_action name s RunBlankScript = s\<lparr>pending := pending s @ [(name, ScriptCallback)]\<rparr>"
| "apply_action name s Warn = s\<lparr>warnings := warnings s @ [''JS-ERROR'']\<rparr>"

definition apply_actions :: "mb \<Rightarrow> string \<Rightarrow> action list \<Rightarrow> mb" where
  "apply_actions s name acts = foldl (apply_action name) s acts"

definition set_view :: "mb \<Rightarrow> string \<Rightarrow> view \<Rightarrow> mb" where
  "set_view s name v = s\<lparr>browsers := AList.update name v (browsers s)\<rparr>"

text \<open>A callback that comes due, with what the engine hands it.\<close>

datatype delivery =
    StartupCheckFires
  | HealthTimerFires
  | HtmlArrives string int
  | BlankTimerFires
  | ScriptArrives js_result int
  | ReloadTimerFires

fun kind :: "delivery \<Rightarrow> callback" where
  "kind StartupCheckFires = StartupCheck"
| "kind HealthTimerFires = HealthTimer"
| "kind (HtmlArrives html now) = HtmlCallback"
| "kind BlankTimerFires = BlankTimer"
| "kind (ScriptArrives res now) = ScriptCallback"
| "kind ReloadTimerFires = ReloadTimer"

text \<open>
  The body of each callback, for the view \<open>v\<close> registered as \<open>name\<close>: the lambda of
  \<open>createProfile\<close>, the lambda of \<open>_onProgress\<close>, \<open>after_html\<close>, \<open>_postBlankJS\<close>,
  \<open>_maybeReloadOnBlank\<close>, and the lambdas that trigger the reload.
\<close>

fun deliver :: "mb \<Rightarrow> string \<Rightarrow> view \<Rightarrow> delivery \<Rightarrow> mb" where
  "deliver s name v StartupCheckFires =
     (if \<not> blank_url (url v) then apply_actions s name (postLoadHealthcheck v (currentName s)) else s)"
| "deliver s name v HealthTimerFires =
     (if currentName s = profile_name v
      then apply_actions s name (postLoadHealthcheck v (currentName s)) else s)"
| "deliver s name v (HtmlArrives html now) =
     apply_actions (set_view s name (fst (after_html v html now))) name (snd (after_html v html now))"
| "deliver s name v BlankTimerFires = apply_actions s name (postBlankJS v)"
| "deliver s name v (ScriptArrives res now) =
     apply_actions (set_view s name (fst (maybeReloadOnBlank v res now))) name
       (snd (maybeReloadOnBlank v res now))"
| "deliver s name v ReloadTimerFires = apply_actions s name [ReloadNow]"

subsection \<open>Events and runs\<close>

text \<open>
  What can happen to the main window: the operator's actions, a view asking for a new
  window, a popup being closed, and the engine's signals and callbacks for the view
  registered under a name. A signal for a name with no view, and a callback that is not
  owed, change nothing.
\<close>

datatype event =
    AddAccount
  | SwitchAccount string
  | DeleteProfile string bool bool
  | NavigateCurrent string
  | CreateWindow string
  | PopupClosed string nat
  | ViewUrlChanged string string
  | LoadProgress string int
  | Console string bool string int
  | Crash string int
  | Deliver string delivery

fun step :: "mb \<Rightarrow> event \<Rightarrow> error + mb" where
  "step s AddAccount = addAccount s"
| "step s (SwitchAccount acc) = Inr (switchAccount s acc)"
| "step s (DeleteProfile name confirmed rmtree_ok) = Inr (deleteProfile s name confirmed rmtree_ok)"
| "step s (NavigateCurrent u) = navigateCurrent s u"
| "step s (CreateWindow name) =
     Inr (case map_of (browsers s) name of
            None \<Rightarrow> s
          | Some v \<Rightarrow> createWindow s (profile_name v))"
| "step s (PopupClosed name n) = Inr (unregisterPopup s name n)"
| "step s (ViewUrlChanged name u) =
     Inr (case map_of (browsers s) name of
            None \<Rightarrow> s
          | Some v \<Rightarrow> MultiBrowser_onUrlChanged (set_view s name (v\<lparr>url := u\<rparr>)) u (v\<lparr>url := u\<rparr>))"
| "step s (LoadProgress name percent) =
     Inr (case map_of (browsers s) name of
            None \<Rightarrow> s
          | Some v \<Rightarrow>
              if percent = 100 then s\<lparr>pending := pending s @ [(name, HealthTimer)]\<rparr> else s)"
| "step s (Console name is_error msg now) =
     Inr (case map_of (browsers s) name of
            None \<Rightarrow> s
          | Some v \<Rightarrow>
              apply_actions
                (set_view s name (fst (javaScriptConsoleMessage v is_error msg (currentName s) now)))
                name (snd (javaScriptConsoleMessage v is_error msg (currentName s) now)))"
| "step s (Crash name now) =
     Inr (case map_of (browsers s) name of
            None \<Rightarrow> s
          | Some v \<Rightarrow>
              apply_actions (set_view s name (fst (onRenderCrash v (currentName s) now)))
                name (snd (onRenderCrash v (currentName s) now)))"
| "step s (Deliver name d) =
     Inr (case map_of (browsers s) name of
            None \<Rightarrow> s
          | Some v \<Rightarrow>
              if (name, kind d) \<in> set (pending s)
              then deliver (s\<lparr>pending := remove1 (name, kind d) (pending s)\<rparr>) name v d
              else s)"

fun run :: "mb \<Rightarrow> event list \<Rightarrow> error + mb" where
  "run s [] = Inr s"
| "run s (e # es) = (case step s e of Inl err \<Rightarrow> Inl err | Inr s' \<Rightarrow> run s' es)"

text \<open>
  The constructor of \<open>MultiBrowser\<close>: the config is loaded, a view is made for every
  profile of the list, and the last active profile is switched to when it has a view.
\<close>

definition startup :: "(json \<Rightarrow> string) \<Rightarrow> (string \<Rightarrow> int option) \<Rightarrow> config_file \<Rightarrow> string set \<Rightarrow> error + mb" where
  "startup repr atoi cfg ds =
     (case loadConfig repr atoi (fresh cfg ds) of
        Inl e \<Rightarrow> Inl e
      | Inr s \<Rightarrow>
          (let s1 = foldl (\<lambda>t name. createProfile t name False) s (profiles s) in
           Inr (if map_of (browsers s1) (lastActive s1) \<noteq> None
                then switchAccount s1 (lastActive s1) else s1)))"

text \<open>The popups of a state: each with the name it is registered under.\<close>

definition owned_popups :: "(string \<times> popup list) list \<Rightarrow> (string \<times> popup) list" where
  "owned_popups ps = concat (map (\<lambda>kw. map (\<lambda>w. (fst kw, w)) (snd kw)) ps)"

definition popups_of :: "mb \<Rightarrow> (string \<times> popup) list" where
  "popups_of s = owned_popups (popupsByProfile s)"

text \<open>The visibility rule: a registered popup is shown exactly when its name is focused.\<close>

definition popup_inv :: "mb \<Rightarrow> bool" where
  "popup_inv s = (\<forall>kw \<in> set (popups_of s). visible (snd kw) = (fst kw = currentName s))"

text \<open>What a run shows of its last state, or the exception that ended it.\<close>

definition observe :: "(mb \<Rightarrow> 'a) \<Rightarrow> error + mb \<Rightarrow> error + 'a" where
  "observe f r = (case r of Inl e \<Rightarrow> Inl e | Inr s \<Rightarrow> Inr (f s))"

text \<open>
  The steps at which a failure is detected for the view registered as \<open>name\<close>: a console
  message, a renderer crash, and the two timers that run \<open>postLoadHealthcheck\<close>.
\<close>

definition detection_entry :: "string \<Rightarrow> event \<Rightarrow> bool" where
  "detection_entry name e =
     (case e of
        Console n is_error msg now \<Rightarrow> n = name
      | Crash n now \<Rightarrow> n = name
      | Deliver n d \<Rightarrow> n = name \<and> (d = StartupCheckFires \<or> d = HealthTimerFires)
      | _ \<Rightarrow> False)"


text \<open>The state of \<open>deleteProfile\<close> before its final switch.\<close>

definition deleted :: "mb \<Rightarrow> string \<Rightarrow> bool \<Rightarrow> mb" where
  "deleted s name rmtree_ok =
     (let s1 = s\<lparr>browsers := AList.delete name (browsers s),
                 pending := filter (\<lambda>p. fst p \<noteq> name) (pending s)\<rparr>;
          s2 = s1\<lparr>popupsByProfile := AList.delete name (popupsByProfile s1)\<rparr>;
          s3 = profileDir s2 name;
          s4 = (if rmtree_ok then s3\<lparr>dirs := dirs s3 - {profile_path name}\<rparr>
                else s3\<lparr>warnings := warnings s3 @ [''Failed to remove profile dir'']\<rparr>);
          s5 = s4\<lparr>profiles := remove1 name (profiles s4),
                  lastUrls := AList.delete name (lastUrls s4)\<rparr>
      in saveConfig (s5\<lparr>lastActive := (case profiles s5 of [] \<Rightarrow> [] | p # ps \<Rightarrow> p)\<rparr>))"


section \<open>Facts about the parser\<close>

lemma parse_lines_acc: "parse_lines lns out = out @ parse_lines lns []"
proof (induction lns arbitrary: out)
  case Nil
  show ?case by simp
next
  case (Cons ln lns)
  show ?case
  proof (cases "parse_line ln")
    case None
    then show ?thesis using Cons.IH [of out] by simp
  next
    case (Some p)
    then show ?thesis using Cons.IH [of "out @ [p]"] Cons.IH [of "[p]"] by simp
  qed
qed

lemma parse_lines_length: "length (parse_lines lns []) \<le> length lns"
proof (induction lns)
  case Nil
  show ?case by simp
next
  case (Cons ln lns)
  show ?case
  proof (cases "parse_line ln")
    case None
    then show ?thesis using Cons.IH by simp
  next
    case (Some p)
    have "parse_lines (ln # lns) [] = [p] @ parse_lines lns []"
      using Some parse_lines_acc [of lns "[p]"] by simp
    then show ?thesis using Cons.IH by simp
  qed
qed

lemma parse_lines_concat:
  "parse_lines lns [] = concat (map (\<lambda>ln. case parse_line ln of None \<Rightarrow> [] | Some p \<Rightarrow> [p]) lns)"
proof (induction lns)
  case Nil
  show ?case by simp
next
  case (Cons ln lns)
  show ?case
  proof (cases "parse_line ln")
    case None
    then show ?thesis using Cons.IH by simp
  next
    case (Some p)
    then show ?thesis using Cons.IH parse_lines_acc [of lns "[p]"] by simp
  qed
qed

lemma dropWhile_snoc_keep: "\<not> P x \<Longrightarrow> dropWhile P (xs @ [x]) = dropWhile P xs @ [x]"
  by (induction xs) auto

lemma set_strip: "set (strip s) \<subseteq> set s"
proof -
  have "set (dropWhile isspace (rev (dropWhile isspace s))) \<subseteq> set (rev (dropWhile isspace s))"
    using set_dropWhileD by fastforce
  also have "\<dots> \<subseteq> set s"
    using set_dropWhileD [of _ isspace s] by auto
  finally show ?thesis by (simp add: strip_def)
qed

lemma hash_not_space: "\<not> isspace (CHR ''#'')"
  by (simp add: isspace_def)

lemma strip_hash: "startswith (strip (CHR ''#'' # rest)) ''#''"
proof -
  have a: "dropWhile isspace (CHR ''#'' # rest) = CHR ''#'' # rest"
    using hash_not_space by simp
  have "dropWhile isspace (rev rest @ [CHR ''#'']) = dropWhile isspace (rev rest) @ [CHR ''#'']"
    using hash_not_space by (rule dropWhile_snoc_keep)
  then have "strip (CHR ''#'' # rest) = CHR ''#'' # rev (dropWhile isspace (rev rest))"
    using a by (simp add: strip_def)
  then show ?thesis by simp
qed

lemma startswith_hash: "startswith ln ''#'' \<Longrightarrow> \<exists>rest. ln = CHR ''#'' # rest"
  by (cases ln) auto

lemma split_first_colon:
  "CHR '':'' \<in> set line \<Longrightarrow> line = before_colon line @ '':'' @ after_colon line"
proof -
  assume h: "CHR '':'' \<in> set line"
  let ?P = "\<lambda>c. c \<noteq> CHR '':''"
  have ne: "dropWhile ?P line \<noteq> []"
    using h by (simp add: dropWhile_eq_Nil_conv)
  have "hd (dropWhile ?P line) = CHR '':''"
    using ne hd_dropWhile [of ?P line] by blast
  then have "dropWhile ?P line = CHR '':'' # drop 1 (dropWhile ?P line)"
    using ne by (cases "dropWhile ?P line") auto
  then have "takeWhile ?P line @ CHR '':'' # drop 1 (dropWhile ?P line) = line"
    using takeWhile_dropWhile_id [of ?P line] by simp
  then show ?thesis by (simp add: before_colon_def after_colon_def)
qed

lemma before_colon_no_colon: "CHR '':'' \<notin> set (before_colon line)"
  using set_takeWhileD [of "CHR '':''" "\<lambda>c. c \<noteq> CHR '':''" line]
  by (auto simp: before_colon_def)

section \<open>The parser: claim C8\<close>

text \<open>
  C8. The parser gives each line at most one pair, in the order of the lines. A line that
  is blank after trimming, a line that begins with \<open>#\<close>, a line with no colon and a line
  with an empty field after trimming give nothing. Every other line is split at its
  first colon and gives the two trimmed fields. The lines
  \<open>["a:1","b:2","# comment","","c:3"]\<close> give \<open>[("a","1"),("b","2"),("c","3")]\<close>, and a
  walker started at the 1-based line 2 stands on \<open>("b","2")\<close>.
\<close>

theorem parse_logpass_lines_spec:
  "parse_lines lns [] =
     concat (map (\<lambda>ln. case parse_line ln of None \<Rightarrow> [] | Some p \<Rightarrow> [p]) lns)
   \<and> length (parse_lines lns []) \<le> length lns
   \<and> (strip blank = [] \<longrightarrow> parse_line blank = None)
   \<and> (startswith comment ''#'' \<longrightarrow> parse_line comment = None)
   \<and> (CHR '':'' \<notin> set nocolon \<longrightarrow> parse_line nocolon = None)
   \<and> (strip (before_colon (strip nofield)) = [] \<or> strip (after_colon (strip nofield)) = []
        \<longrightarrow> parse_line nofield = None)
   \<and> (strip ln \<noteq> [] \<and> \<not> startswith (strip ln) ''#'' \<and> CHR '':'' \<in> set (strip ln)
        \<and> strip (before_colon (strip ln)) \<noteq> [] \<and> strip (after_colon (strip ln)) \<noteq> []
        \<longrightarrow> parse_line ln = Some (strip (before_colon (strip ln)), strip (after_colon (strip ln)))
            \<and> strip ln = before_colon (strip ln) @ '':'' @ after_colon (strip ln)
            \<and> CHR '':'' \<notin> set (before_colon (strip ln)))
   \<and> parse_lines [''a:1'', ''b:2'', ''# comment'', '''', ''c:3''] []
        = [(''a'', ''1''), (''b'', ''2''), (''c'', ''3'')]
   \<and> py_index (lines (walker_from_user [(''a'', ''1''), (''b'', ''2''), (''c'', ''3'')] 2))
        (index (walker_from_user [(''a'', ''1''), (''b'', ''2''), (''c'', ''3'')] 2))
        = Some (''b'', ''2'')"
proof -
  have c1: "parse_lines lns [] =
      concat (map (\<lambda>ln. case parse_line ln of None \<Rightarrow> [] | Some p \<Rightarrow> [p]) lns)"
    by (rule parse_lines_concat)
  have c2: "length (parse_lines lns []) \<le> length lns"
    by (rule parse_lines_length)
  have c3: "strip blank = [] \<longrightarrow> parse_line blank = None"
    by (simp add: parse_line_def)
  have c4: "startswith comment ''#'' \<longrightarrow> parse_line comment = None"
  proof
    assume "startswith comment ''#''"
    then obtain rest where "comment = CHR ''#'' # rest"
      using startswith_hash by blast
    then have "startswith (strip comment) ''#''"
      using strip_hash by simp
    then show "parse_line comment = None"
      by (simp add: parse_line_def)
  qed
  have c5: "CHR '':'' \<notin> set nocolon \<longrightarrow> parse_line nocolon = None"
    using set_strip [of nocolon] by (auto simp: parse_line_def Let_def)
  have c6: "strip (before_colon (strip nofield)) = [] \<or> strip (after_colon (strip nofield)) = []
      \<longrightarrow> parse_line nofield = None"
    by (auto simp: parse_line_def Let_def)
  have c7: "strip ln \<noteq> [] \<and> \<not> startswith (strip ln) ''#'' \<and> CHR '':'' \<in> set (strip ln)
        \<and> strip (before_colon (strip ln)) \<noteq> [] \<and> strip (after_colon (strip ln)) \<noteq> []
        \<longrightarrow> parse_line ln = Some (strip (before_colon (strip ln)), strip (after_colon (strip ln)))
            \<and> strip ln = before_colon (strip ln) @ '':'' @ after_colon (strip ln)
            \<and> CHR '':'' \<notin> set (before_colon (strip ln))"
    using split_first_colon [of "strip ln"] before_colon_no_colon [of "strip ln"]
    by (simp add: parse_line_def Let_def)
  have c8: "parse_lines [''a:1'', ''b:2'', ''# comment'', '''', ''c:3''] []
        = [(''a'', ''1''), (''b'', ''2''), (''c'', ''3'')]"
    by (simp add: parse_line_def strip_def isspace_def before_colon_def after_colon_def)
  have c9: "py_index (lines (walker_from_user [(''a'', ''1''), (''b'', ''2''), (''c'', ''3'')] 2))
        (index (walker_from_user [(''a'', ''1''), (''b'', ''2''), (''c'', ''3'')] 2))
        = Some (''b'', ''2'')"
    by (simp add: walker_from_user_def walker_init_def py_index_def)
  show ?thesis
    using c1 c2 c3 c4 c5 c6 c7 c8 c9 by blast
qed

theorem parse_logpass_lines_spec_witness:
  "parse_lines ['' bob : pw:x '', ''# note'', ''nocolon'', '' : pw''] [] = [(''bob'', ''pw:x'')]
   \<and> parse_line ''   '' = None
   \<and> parse_line ''# note'' = None
   \<and> parse_line ''nocolon'' = None
   \<and> parse_line '' : pw'' = None
   \<and> parse_line '' bob : pw:x '' = Some (''bob'', ''pw:x'')
   \<and> parse_logpass_file (Some (''a:1'' @ [CHR 0x0A] @ ''b:2'' @ [CHR 0x0D, CHR 0x0A]
        @ ''# comment'' @ [CHR 0x0A, CHR 0x0A] @ ''c:3'' @ [CHR 0x0A]))
        = [(''a'', ''1''), (''b'', ''2''), (''c'', ''3'')]"
proof -
  have ev: "strip ''   '' = []" "startswith ''# note'' ''#''" "CHR '':'' \<notin> set ''nocolon''"
    "strip (before_colon (strip '' : pw'')) = []"
    "strip '' bob : pw:x '' = ''bob : pw:x''"
    "strip (before_colon ''bob : pw:x'') = ''bob''"
    "strip (after_colon ''bob : pw:x'') = ''pw:x''"
    by (simp_all add: strip_def isspace_def before_colon_def after_colon_def)
  have whole: "parse_logpass_file (Some (''a:1'' @ [CHR 0x0A] @ ''b:2'' @ [CHR 0x0D, CHR 0x0A]
        @ ''# comment'' @ [CHR 0x0A, CHR 0x0A] @ ''c:3'' @ [CHR 0x0A]))
        = [(''a'', ''1''), (''b'', ''2''), (''c'', ''3'')]"
    by (simp add: parse_logpass_file_def is_crlf_def parse_line_def strip_def isspace_def
        before_colon_def after_colon_def)
  have pl: "parse_line ''   '' = None" "parse_line ''# note'' = None"
    "parse_line ''nocolon'' = None" "parse_line '' : pw'' = None"
    "parse_line '' bob : pw:x '' = Some (''bob'', ''pw:x'')"
    using parse_logpass_lines_spec
      [of "['' bob : pw:x '', ''# note'', ''nocolon'', '' : pw'']"
        "''   ''" "''# note''" "''nocolon''" "'' : pw''" "'' bob : pw:x ''"] ev
    by simp_all
  have "parse_lines ['' bob : pw:x '', ''# note'', ''nocolon'', '' : pw''] [] = [(''bob'', ''pw:x'')]"
    using parse_logpass_lines_spec
      [of "['' bob : pw:x '', ''# note'', ''nocolon'', '' : pw'']"
        "''   ''" "''# note''" "''nocolon''" "'' : pw''" "'' bob : pw:x ''"] pl
    by simp
  then show ?thesis using pl whole by simp
qed

section \<open>Facts about the import walker\<close>

lemma stop_fst: "fst (stop w) = w\<lparr>active := False\<rparr>"
  by (simp add: stop_def)

lemma finishAll_fst: "fst (finishAll w) = w\<lparr>active := False\<rparr>"
  by (simp add: finishAll_def stop_def)


















section \<open>The import walker: claim C7\<close>





section \<open>Facts about the health monitor\<close>

lemma apart_trans: "apart d a b \<Longrightarrow> apart d b c \<Longrightarrow> apart d a c"
  by (auto simp: apart_def split: if_splits)

lemma console_step:
  "(list_ex is_reload (snd (javaScriptConsoleMessage v is_error msg cur now))
      \<and> fst (javaScriptConsoleMessage v is_error msg cur now) = v\<lparr>last_fix_ms := now\<rparr>
      \<and> last_fix_ms v + 5000 < now)
   \<or> (\<not> list_ex is_reload (snd (javaScriptConsoleMessage v is_error msg cur now))
      \<and> fst (javaScriptConsoleMessage v is_error msg cur now) = v)"
  by (simp add: javaScriptConsoleMessage_def Let_def is_reload_def)

lemma crash_step:
  "(list_ex is_reload (snd (onRenderCrash v cur now))
      \<and> fst (onRenderCrash v cur now) = v\<lparr>lastRenderReloadMs := now\<rparr>
      \<and> lastRenderReloadMs v + 5000 \<le> now)
   \<or> (\<not> list_ex is_reload (snd (onRenderCrash v cur now))
      \<and> fst (onRenderCrash v cur now) = v)"
  by (simp add: onRenderCrash_def is_reload_def)

lemma html_step:
  "(list_ex is_reload (snd (after_html v html now))
      \<and> judges_blank (HtmlResult html now)
      \<and> fst (after_html v html now)
          = v\<lparr>last_blank_fix_ms := now, blank_fix_tries := blank_fix_tries v + 1\<rparr>
      \<and> last_blank_fix_ms v + 5000 < now \<and> blank_fix_tries v < 3)
   \<or> (\<not> list_ex is_reload (snd (after_html v html now))
      \<and> judges_blank (HtmlResult html now)
      \<and> fst (after_html v html now) = v)
   \<or> (\<not> list_ex is_reload (snd (after_html v html now))
      \<and> \<not> judges_blank (HtmlResult html now)
      \<and> fst (after_html v html now) = v\<lparr>blank_fix_tries := 0\<rparr>)"
  by (simp add: after_html_def Let_def is_reload_def)

lemma script_step:
  "(list_ex is_reload (snd (maybeReloadOnBlank v res now))
      \<and> isBlank res
      \<and> fst (maybeReloadOnBlank v res now)
          = v\<lparr>last_blank_fix_ms := now, blank_fix_tries := blank_fix_tries v + 1\<rparr>
      \<and> last_blank_fix_ms v + 5000 < now \<and> blank_fix_tries v < 3)
   \<or> (\<not> list_ex is_reload (snd (maybeReloadOnBlank v res now))
      \<and> fst (maybeReloadOnBlank v res now) = v)"
  by (simp add: maybeReloadOnBlank_def is_reload_def)

lemma health_step_stamp:
  "(list_ex is_reload (snd (health_step v e)) \<and> event_detector e = d
      \<and> stamp d (fst (health_step v e)) = event_time e
      \<and> apart d (stamp d v) (event_time e))
   \<or> (\<not> (list_ex is_reload (snd (health_step v e)) \<and> event_detector e = d)
      \<and> stamp d (fst (health_step v e)) = stamp d v)"
proof (cases e)
  case (ConsoleMessage is_error msg cur now)
  then show ?thesis
    using console_step [of v is_error msg cur now]
    by (cases d) (auto simp: apart_def)
next
  case (RenderCrash cur now)
  then show ?thesis
    using crash_step [of v cur now]
    by (cases d) (auto simp: apart_def)
next
  case (HtmlResult html now)
  then show ?thesis
    using html_step [of v html now]
    by (cases d) (auto simp: apart_def)
next
  case (ScriptResult res now)
  then show ?thesis
    using script_step [of v res now]
    by (cases d) (auto simp: apart_def)
qed

lemma reload_times_Cons:
  "reload_times d v (e # es) =
     (if list_ex is_reload (snd (health_step v e)) \<and> event_detector e = d
      then [event_time e] else [])
     @ reload_times d (fst (health_step v e)) es"
  by (simp add: reload_times_def)

lemma sorted_wrt_apart_Cons:
  "apart d a b \<Longrightarrow> sorted_wrt (apart d) (b # ts) \<Longrightarrow> sorted_wrt (apart d) (a # b # ts)"
  using apart_trans by auto

lemma cooldown_per_detector: "sorted_wrt (apart d) (stamp d v # reload_times d v es)"
proof (induction es arbitrary: v)
  case Nil
  show ?case by (simp add: reload_times_def)
next
  case (Cons e es)
  let ?v = "fst (health_step v e)"
  have ih: "sorted_wrt (apart d) (stamp d ?v # reload_times d ?v es)"
    by (rule Cons.IH)
  show ?case
  proof (cases "list_ex is_reload (snd (health_step v e)) \<and> event_detector e = d")
    case True
    then have a: "stamp d ?v = event_time e" "apart d (stamp d v) (event_time e)"
      using health_step_stamp [of v e d] by auto
    have "sorted_wrt (apart d) (stamp d v # event_time e # reload_times d ?v es)"
      using a(2) ih a(1) by (simp only: sorted_wrt_apart_Cons)
    moreover have "reload_times d v (e # es) = event_time e # reload_times d ?v es"
      using True by (simp add: reload_times_Cons)
    ultimately show ?thesis by simp
  next
    case False
    then have "stamp d ?v = stamp d v"
      using health_step_stamp [of v e d] by auto
    moreover have "reload_times d v (e # es) = reload_times d ?v es"
      using False by (simp add: reload_times_Cons)
    ultimately show ?thesis using ih by simp
  qed
qed

lemma health_step_tries:
  "event_detector e = BlankDetector \<longrightarrow> judges_blank e \<Longrightarrow>
   (list_ex is_reload (snd (health_step v e)) \<and> event_detector e = BlankDetector
      \<and> blank_fix_tries v < 3
      \<and> blank_fix_tries (fst (health_step v e)) = blank_fix_tries v + 1)
   \<or> (\<not> (list_ex is_reload (snd (health_step v e)) \<and> event_detector e = BlankDetector)
      \<and> blank_fix_tries (fst (health_step v e)) = blank_fix_tries v)"
proof (cases e)
  case (ConsoleMessage is_error msg cur now)
  then show ?thesis using console_step [of v is_error msg cur now] by auto
next
  case (RenderCrash cur now)
  then show ?thesis using crash_step [of v cur now] by auto
next
  case (HtmlResult html now)
  assume "event_detector e = BlankDetector \<longrightarrow> judges_blank e"
  then have "judges_blank (HtmlResult html now)" using HtmlResult by simp
  then show ?thesis using HtmlResult html_step [of v html now] by auto
next
  case (ScriptResult res now)
  then show ?thesis using script_step [of v res now] by auto
qed

lemma health_run_Cons: "health_run v (e # es) = health_run (fst (health_step v e)) es"
  by (simp add: health_run_def)

lemma blank_tries_count:
  "\<forall>e \<in> set es. event_detector e = BlankDetector \<longrightarrow> judges_blank e \<Longrightarrow>
   blank_fix_tries (health_run v es)
     = blank_fix_tries v + int (length (reload_times BlankDetector v es))
   \<and> (reload_times BlankDetector v es \<noteq> [] \<longrightarrow> blank_fix_tries (health_run v es) \<le> 3)"
proof (induction es arbitrary: v)
  case Nil
  show ?case by (simp add: health_run_def reload_times_def)
next
  case (Cons e es)
  let ?v = "fst (health_step v e)"
  have e: "event_detector e = BlankDetector \<longrightarrow> judges_blank e"
    using Cons.prems by simp
  have ih: "blank_fix_tries (health_run ?v es)
      = blank_fix_tries ?v + int (length (reload_times BlankDetector ?v es))
      \<and> (reload_times BlankDetector ?v es \<noteq> [] \<longrightarrow> blank_fix_tries (health_run ?v es) \<le> 3)"
    using Cons.prems by (intro Cons.IH) simp
  show ?case
  proof (cases "list_ex is_reload (snd (health_step v e)) \<and> event_detector e = BlankDetector")
    case True
    then have t: "blank_fix_tries v < 3" "blank_fix_tries ?v = blank_fix_tries v + 1"
      using health_step_tries [OF e, of v] by auto
    have r: "reload_times BlankDetector v (e # es) = event_time e # reload_times BlankDetector ?v es"
      using True by (simp add: reload_times_Cons)
    show ?thesis
      using ih t r by (cases "reload_times BlankDetector ?v es = []") (auto simp: health_run_Cons)
  next
    case False
    then have t: "blank_fix_tries ?v = blank_fix_tries v"
      using health_step_tries [OF e, of v] by auto
    have r: "reload_times BlankDetector v (e # es) = reload_times BlankDetector ?v es"
      using False by (simp add: reload_times_Cons)
    show ?thesis
      using ih t r by (auto simp: health_run_Cons)
  qed
qed

lemma blank_budget:
  assumes "\<forall>e \<in> set es. event_detector e = BlankDetector \<longrightarrow> judges_blank e"
    and "0 \<le> blank_fix_tries v"
  shows "int (length (reload_times BlankDetector v es)) \<le> 3 - blank_fix_tries v
         \<or> reload_times BlankDetector v es = []"
  using blank_tries_count [OF assms(1), of v] by auto



section \<open>The reload cooldown: claim C1\<close>

text \<open>
  C1, as the claim states it, fails: each detector keeps a time stamp of its own
  (\<open>last_fix_ms\<close>, \<open>_lastRenderReloadMs\<close>, \<open>_last_blank_fix_ms\<close>), so a console failure, a
  renderer crash and a blank page seen within two milliseconds on the focused view each
  decide a reload.
\<close>

theorem shared_cooldown_counterexample:
  "reloads (new_view ''Steam 1'')
     [ConsoleMessage False ''ChunkLoadError'' ''Steam 1'' 10000,
      RenderCrash ''Steam 1'' 10001,
      ScriptResult (JsDict [(''empty'', True)]) 10002]
   = [(ConsoleDetector, 10000), (CrashDetector, 10001), (BlankDetector, 10002)]"
  by (simp add: new_view_def javaScriptConsoleMessage_def onRenderCrash_def
      maybeReloadOnBlank_def isBlank_def fatal_substrings_def is_reload_def)


text \<open>
  C1, amended. The cooldown is kept per detector and per view: over every run of signals,
  with any focus and any clock readings, the reloads decided by one detector lie pairwise
  apart, by more than 5000 ms for the console detector and for the blank detector (whose
  two checks share one stamp) and by at least 5000 ms for the crash detector, and the
  first of them lies that far after the stamp the view started with (0 for a new view).
\<close>

theorem cooldown_per_detector_spec:
  "sorted_wrt (apart d) (stamp d v # reload_times d v es)
   \<and> sorted_wrt (apart d) (reload_times d (new_view name) es)"
proof -
  have a: "sorted_wrt (apart d) (stamp d v # reload_times d v es)"
    by (rule cooldown_per_detector)
  have "sorted_wrt (apart d) (stamp d (new_view name) # reload_times d (new_view name) es)"
    by (rule cooldown_per_detector)
  then have "sorted_wrt (apart d) (reload_times d (new_view name) es)"
    by simp
  then show ?thesis using a by simp
qed

theorem cooldown_per_detector_spec_witness:
  "reload_times CrashDetector (new_view ''Steam 1'')
     [RenderCrash ''Steam 1'' 10000, RenderCrash ''Steam 1'' 14999,
      ConsoleMessage True ''jQuery is not defined'' ''Steam 1'' 12000,
      RenderCrash ''Steam 1'' 15000]
   = [10000, 15000]
   \<and> sorted_wrt (apart CrashDetector) [0, 10000, 15000]"
proof -
  let ?es = "[RenderCrash ''Steam 1'' 10000, RenderCrash ''Steam 1'' 14999,
      ConsoleMessage True ''jQuery is not defined'' ''Steam 1'' 12000,
      RenderCrash ''Steam 1'' 15000]"
  have t: "reload_times CrashDetector (new_view ''Steam 1'') ?es = [10000, 15000]"
    by (simp add: reload_times_def new_view_def javaScriptConsoleMessage_def onRenderCrash_def
        fatal_substrings_def is_reload_def)
  have "stamp CrashDetector (new_view ''Steam 1'') = 0"
    by (simp add: new_view_def)
  then have "sorted_wrt (apart CrashDetector) [0, 10000, 15000]"
    using cooldown_per_detector_spec [of CrashDetector "new_view ''Steam 1''" ?es] t
    by (simp only: list.simps)
  then show ?thesis using t by simp
qed

section \<open>The blank-page retries: claim C4\<close>





section \<open>Evaluating runs of the main window\<close>

lemmas name_eval = nextSteamName_def next_steam_from.simps steam_name_def decimal.simps digit_char_def

lemmas mb_eval = fresh_def addAccount_def createProfile_def profileDir_def profile_path_def
  new_view_def switchAccount_def saveConfig_def config_doc_def showPopupsFor_def blank_url_def
  restore_url_def dict_get_def DEFAULT_HOME_URL_def deleteProfile_def navigateCurrent_def
  observe_def Let_def createWindow_def registerPopup_def unregisterPopup_def
  popups_of_def owned_popups_def


section \<open>Facts about popups\<close>

lemma popups_of_Nil: "popupsByProfile s = [] \<Longrightarrow> popups_of s = []"
  by (simp add: popups_of_def owned_popups_def)

lemma popups_of_cong:
  "popupsByProfile t = popupsByProfile s \<Longrightarrow> popups_of t = popups_of s"
  by (simp add: popups_of_def)

lemma popup_inv_cong:
  "popupsByProfile t = popupsByProfile s \<Longrightarrow> currentName t = currentName s \<Longrightarrow>
   popup_inv t = popup_inv s"
  by (simp add: popup_inv_def popups_of_def)

lemma popup_inv_subset:
  "popup_inv s \<Longrightarrow> set (popups_of t) \<subseteq> set (popups_of s) \<Longrightarrow> currentName t = currentName s \<Longrightarrow>
   popup_inv t"
  by (auto simp: popup_inv_def)

lemma pops_register:
  "set (owned_popups (AList.update k (dict_get ps k [] @ [w]) ps))
   = insert (k, w) (set (owned_popups ps))"
  unfolding owned_popups_def
proof (induction ps)
  case Nil
  show ?case by (simp add: dict_get_def)
next
  case (Cons p ps)
  show ?case
  proof (cases "fst p = k")
    case True
    then show ?thesis by (auto simp: dict_get_def)
  next
    case False
    then have "dict_get (p # ps) k [] = dict_get ps k []"
      by (cases p) (simp add: dict_get_def)
    then show ?thesis using False Cons.IH by auto
  qed
qed

lemma pops_delete: "set (owned_popups (AList.delete k ps)) \<subseteq> set (owned_popups ps)"
  by (auto simp: AList.delete_eq owned_popups_def)

lemma set_remove_window: "set (remove_window n ws) \<subseteq> set ws"
  by (induction ws) auto

lemma pops_update_subset:
  "map_of ps k = Some arr \<Longrightarrow> set arr' \<subseteq> set arr \<Longrightarrow>
   set (owned_popups (AList.update k arr' ps)) \<subseteq> set (owned_popups ps)"
  unfolding owned_popups_def
proof (induction ps)
  case Nil
  then show ?case by simp
next
  case (Cons p ps)
  show ?case
  proof (cases "fst p = k")
    case True
    then have "snd p = arr" using Cons.prems(1) by (cases p) simp
    then show ?thesis using True Cons.prems(2) by auto
  next
    case False
    then have "map_of ps k = Some arr" using Cons.prems(1) by (cases p) simp
    then show ?thesis using False Cons.IH Cons.prems(2) by auto
  qed
qed

lemma popups_of_show:
  "popups_of (showPopupsFor s n)
   = map (\<lambda>kw. (fst kw, (snd kw)\<lparr>visible := (fst kw = n)\<rparr>)) (popups_of s)"
  by (simp add: popups_of_def owned_popups_def showPopupsFor_def map_concat comp_def)

lemma showPopupsFor_frame: "currentName (showPopupsFor s n) = currentName s"
  "browsers (showPopupsFor s n) = browsers s"
  by (simp_all add: showPopupsFor_def)

lemma saveConfig_frame: "currentName (saveConfig s) = currentName s"
  "popupsByProfile (saveConfig s) = popupsByProfile s" "browsers (saveConfig s) = browsers s"
  by (simp_all add: saveConfig_def)

lemma switchAccount_known:
  "map_of (browsers s) acc = Some v \<Longrightarrow>
   currentName (switchAccount s acc) = acc
   \<and> popups_of (switchAccount s acc)
       = map (\<lambda>kw. (fst kw, (snd kw)\<lparr>visible := (fst kw = acc)\<rparr>)) (popups_of s)"
  by (simp add: switchAccount_def Let_def popups_of_show showPopupsFor_frame saveConfig_frame
      popups_of_cong [of "saveConfig _"])

lemma switchAccount_unknown: "map_of (browsers s) acc = None \<Longrightarrow> switchAccount s acc = s"
  by (simp add: switchAccount_def)

lemma switchAccount_known_inv:
  "map_of (browsers s) acc = Some v \<Longrightarrow> popup_inv (switchAccount s acc)"
  using switchAccount_known [of s acc v] by (auto simp: popup_inv_def)

lemma switchAccount_inv: "popup_inv s \<Longrightarrow> popup_inv (switchAccount s acc)"
  using switchAccount_known_inv [of s acc] switchAccount_unknown [of s acc]
  by (cases "map_of (browsers s) acc") auto

lemma createWindow_popups:
  "set (popups_of (createWindow s name))
   = insert (name, \<lparr>pid = next_pid s, visible = (currentName s = name)\<rparr>) (set (popups_of s))"
  by (simp add: createWindow_def registerPopup_def popups_of_def pops_register)

lemma createWindow_frame: "currentName (createWindow s name) = currentName s"
  by (simp add: createWindow_def registerPopup_def)

lemma createWindow_inv: "popup_inv s \<Longrightarrow> popup_inv (createWindow s name)"
  by (auto simp: popup_inv_def createWindow_popups createWindow_frame)

lemma unregisterPopup_popups: "set (popups_of (unregisterPopup s name n)) \<subseteq> set (popups_of s)"
proof (cases "map_of (popupsByProfile s) name")
  case None
  then show ?thesis by (simp add: unregisterPopup_def)
next
  case (Some arr)
  have a: "set (popups_of (s\<lparr>popupsByProfile := AList.delete name (popupsByProfile s)\<rparr>))
      \<subseteq> set (popups_of s)"
    using pops_delete [of name "popupsByProfile s"] by (simp add: popups_of_def)
  have b: "set (popups_of (s\<lparr>popupsByProfile :=
        AList.update name (remove_window n arr) (popupsByProfile s)\<rparr>)) \<subseteq> set (popups_of s)"
    using pops_update_subset [OF Some set_remove_window, of n] by (simp add: popups_of_def)
  show ?thesis using Some a b by (simp add: unregisterPopup_def)
qed

lemma unregisterPopup_frame: "currentName (unregisterPopup s name n) = currentName s"
  by (simp add: unregisterPopup_def split: option.splits)

lemma unregisterPopup_inv: "popup_inv s \<Longrightarrow> popup_inv (unregisterPopup s name n)"
  using unregisterPopup_popups [of s name n] unregisterPopup_frame [of s name n]
  by (blast intro: popup_inv_subset)

lemma deleteProfile_inv: "popup_inv s \<Longrightarrow> popup_inv (deleteProfile s name confirmed rmtree_ok)"
proof -
  assume inv: "popup_inv s"
  define t where "t = s\<lparr>popupsByProfile := AList.delete name (popupsByProfile s)\<rparr>"
  have "set (popups_of t) \<subseteq> set (popups_of s)"
    using pops_delete [of name "popupsByProfile s"] by (simp add: popups_of_def t_def)
  moreover have "currentName t = currentName s" by (simp add: t_def)
  ultimately have t: "popup_inv t" using inv popup_inv_subset by blast
  have k: "\<And>u. popupsByProfile u = popupsByProfile t \<Longrightarrow> currentName u = currentName t \<Longrightarrow>
      popup_inv u"
    using t popup_inv_cong by blast
  show ?thesis
    unfolding deleteProfile_def Let_def
    by (auto intro!: switchAccount_inv k inv simp: saveConfig_def profileDir_def t_def)
qed

lemma apply_action_frame:
  "currentName (apply_action name s a) = currentName s"
  "popupsByProfile (apply_action name s a) = popupsByProfile s"
  "browsers (apply_action name s a) = browsers s"
  by (cases a; simp)+

lemma apply_actions_frame:
  "currentName (apply_actions s name acts) = currentName s
   \<and> popupsByProfile (apply_actions s name acts) = popupsByProfile s
   \<and> browsers (apply_actions s name acts) = browsers s"
  unfolding apply_actions_def
  by (induction acts arbitrary: s) (simp_all add: apply_action_frame)

lemma set_view_frame:
  "currentName (set_view s name v) = currentName s"
  "popupsByProfile (set_view s name v) = popupsByProfile s"
  by (simp_all add: set_view_def)

lemma deliver_frame:
  "currentName (deliver s name v d) = currentName s
   \<and> popupsByProfile (deliver s name v d) = popupsByProfile s"
  by (cases d) (simp_all add: apply_actions_frame set_view_frame)

lemma navigateCurrent_frame:
  "navigateCurrent s u = Inr t \<Longrightarrow>
   currentName t = currentName s \<and> popupsByProfile t = popupsByProfile s"
  by (auto simp: navigateCurrent_def split: if_splits option.splits)

lemma createProfile_switch_inv: "popup_inv (createProfile s name True)"
proof -
  let ?t = "(profileDir s name)\<lparr>browsers := AList.update name (new_view name) (browsers (profileDir s name)),
        pending := pending (profileDir s name) @ [(name, StartupCheck)]\<rparr>"
  have "map_of (browsers ?t) name = Some (new_view name)"
    by (simp add: update_conv')
  then have "popup_inv (switchAccount ?t name)"
    by (rule switchAccount_known_inv)
  then show ?thesis by (simp add: createProfile_def Let_def)
qed

lemma addAccount_inv: "addAccount s = Inr t \<Longrightarrow> popup_inv t"
proof -
  assume h: "addAccount s = Inr t"
  let ?acc = "nextSteamName s"
  let ?s1 = "createProfile s ?acc True"
  let ?s2 = "if ?acc \<notin> set (profiles ?s1) then ?s1\<lparr>profiles := profiles ?s1 @ [?acc]\<rparr> else ?s1"
  let ?s3 = "saveConfig (?s2\<lparr>lastActive := ?acc\<rparr>)"
  have "popup_inv ?s1" by (rule createProfile_switch_inv)
  moreover have "popupsByProfile ?s3 = popupsByProfile ?s1" "currentName ?s3 = currentName ?s1"
    by (simp_all add: saveConfig_def)
  ultimately have s3: "popup_inv ?s3" using popup_inv_cong by blast
  have "t = ?s3 \<or> navigateCurrent ?s3 (restore_url ?s3 ?acc) = Inr t"
    using h by (auto simp: addAccount_def Let_def split: option.splits if_splits)
  then show ?thesis
    using s3 navigateCurrent_frame [of ?s3 _ t] popup_inv_cong [of t ?s3] by blast
qed

lemma step_inv: "popup_inv s \<Longrightarrow> step s e = Inr t \<Longrightarrow> popup_inv t"
proof (cases e)
  case AddAccount
  assume "step s e = Inr t"
  then show ?thesis using AddAccount addAccount_inv by simp
next
  case (SwitchAccount acc)
  assume "popup_inv s" "step s e = Inr t"
  then show ?thesis using SwitchAccount switchAccount_inv by auto
next
  case (DeleteProfile name confirmed rmtree_ok)
  assume "popup_inv s" "step s e = Inr t"
  then show ?thesis using DeleteProfile deleteProfile_inv by auto
next
  case (NavigateCurrent u)
  assume "popup_inv s" "step s e = Inr t"
  then show ?thesis
    using NavigateCurrent navigateCurrent_frame [of s u t] popup_inv_cong [of t s] by simp
next
  case (CreateWindow name)
  assume "popup_inv s" "step s e = Inr t"
  then show ?thesis using CreateWindow createWindow_inv by (auto split: option.splits)
next
  case (PopupClosed name n)
  assume "popup_inv s" "step s e = Inr t"
  then show ?thesis using PopupClosed unregisterPopup_inv by auto
next
  case (ViewUrlChanged name u)
  assume "popup_inv s" "step s e = Inr t"
  then show ?thesis
    using ViewUrlChanged popup_inv_cong [of t s]
    by (auto simp: MultiBrowser_onUrlChanged_def saveConfig_def set_view_def
        split: option.splits if_splits)
next
  case (LoadProgress name percent)
  assume "popup_inv s" "step s e = Inr t"
  then show ?thesis
    using LoadProgress popup_inv_cong [of t s] by (auto split: option.splits if_splits)
next
  case (Console name is_error msg now)
  assume "popup_inv s" "step s e = Inr t"
  then show ?thesis
    using Console popup_inv_cong [of t s]
    by (auto simp: apply_actions_frame set_view_frame split: option.splits)
next
  case (Crash name now)
  assume "popup_inv s" "step s e = Inr t"
  then show ?thesis
    using Crash popup_inv_cong [of t s]
    by (auto simp: apply_actions_frame set_view_frame split: option.splits)
next
  case (Deliver name d)
  assume "popup_inv s" "step s e = Inr t"
  then show ?thesis
    using Deliver popup_inv_cong [of t s]
    by (auto simp: deliver_frame split: option.splits if_splits)
qed

lemma run_inv: "popup_inv s \<Longrightarrow> run s es = Inr t \<Longrightarrow> popup_inv t"
proof (induction es arbitrary: s)
  case Nil
  then show ?case by simp
next
  case (Cons e es)
  then obtain s' where s': "step s e = Inr s'" "run s' es = Inr t"
    by (auto split: sum.splits)
  have "popup_inv s'" using Cons.prems(1) s'(1) by (rule step_inv)
  then show ?case using s'(2) by (rule Cons.IH)
qed

lemma loadConfig_frame:
  "loadConfig repr atoi s = Inr t \<Longrightarrow>
   popupsByProfile t = popupsByProfile s \<and> currentName t = currentName s
   \<and> browsers t = browsers s"
  by (auto simp: loadConfig_def Let_def
      split: config_file.splits json.splits sum.splits if_splits)

lemma createProfile_noswitch_frame:
  "popupsByProfile (createProfile s name False) = popupsByProfile s
   \<and> currentName (createProfile s name False) = currentName s"
  by (simp add: createProfile_def Let_def profileDir_def)

lemma createProfiles_frame:
  "popupsByProfile (foldl (\<lambda>t name. createProfile t name False) s names) = popupsByProfile s
   \<and> currentName (foldl (\<lambda>t name. createProfile t name False) s names) = currentName s"
  by (induction names arbitrary: s) (simp_all add: createProfile_noswitch_frame)

lemma startup_inv: "startup repr atoi cfg ds = Inr s \<Longrightarrow> popup_inv s"
proof -
  assume h: "startup repr atoi cfg ds = Inr s"
  then obtain t where t: "loadConfig repr atoi (fresh cfg ds) = Inr t"
    by (auto simp: startup_def split: sum.splits)
  let ?s1 = "foldl (\<lambda>u name. createProfile u name False) t (profiles t)"
  have "popupsByProfile t = []"
    using loadConfig_frame [OF t] by (simp add: fresh_def)
  then have "popupsByProfile ?s1 = []"
    using createProfiles_frame [of t "profiles t"] by simp
  then have "popup_inv ?s1"
    by (simp add: popup_inv_def popups_of_Nil)
  then have "popup_inv (switchAccount ?s1 (lastActive ?s1))" "popup_inv ?s1"
    using switchAccount_inv by simp_all
  moreover have "s = switchAccount ?s1 (lastActive ?s1) \<or> s = ?s1"
    using h t by (auto simp: startup_def Let_def split: if_splits)
  ultimately show ?thesis by blast
qed

section \<open>Popup visibility: claim C5\<close>

text \<open>
  C5. In every state reached from a start of the program by any run of events, a
  registered popup is shown exactly when the name it is registered under is the focused
  one. A switch to a known profile focuses it and leaves every popup shown exactly when
  it belongs to that profile. A new popup is registered under its opener's profile and
  starts shown exactly when that profile is the focused one.
\<close>

theorem popup_visibility:
  "(startup repr atoi cfg ds = Inr s0 \<and> run s0 es = Inr s
      \<longrightarrow> (\<forall>kw \<in> set (popups_of s). visible (snd kw) = (fst kw = currentName s)))
   \<and> (map_of (browsers s) acc \<noteq> None
      \<longrightarrow> currentName (switchAccount s acc) = acc
          \<and> popups_of (switchAccount s acc)
              = map (\<lambda>kw. (fst kw, (snd kw)\<lparr>visible := (fst kw = acc)\<rparr>)) (popups_of s))
   \<and> set (popups_of (createWindow s name))
       = insert (name, \<lparr>pid = next_pid s, visible = (currentName s = name)\<rparr>) (set (popups_of s))"
proof -
  have c1: "startup repr atoi cfg ds = Inr s0 \<and> run s0 es = Inr s
      \<longrightarrow> (\<forall>kw \<in> set (popups_of s). visible (snd kw) = (fst kw = currentName s))"
  proof
    assume h: "startup repr atoi cfg ds = Inr s0 \<and> run s0 es = Inr s"
    then have "popup_inv s0" using startup_inv by blast
    then have "popup_inv s" using h run_inv by blast
    then show "\<forall>kw \<in> set (popups_of s). visible (snd kw) = (fst kw = currentName s)"
      by (simp add: popup_inv_def)
  qed
  have c2: "map_of (browsers s) acc \<noteq> None
      \<longrightarrow> currentName (switchAccount s acc) = acc
          \<and> popups_of (switchAccount s acc)
              = map (\<lambda>kw. (fst kw, (snd kw)\<lparr>visible := (fst kw = acc)\<rparr>)) (popups_of s)"
    using switchAccount_known [of s acc] by auto
  have c3: "set (popups_of (createWindow s name))
       = insert (name, \<lparr>pid = next_pid s, visible = (currentName s = name)\<rparr>) (set (popups_of s))"
    by (rule createWindow_popups)
  show ?thesis using c1 c2 c3 by blast
qed

lemma map_pair_zip: "map (\<lambda>x. (f x, g x)) xs = zip (map f xs) (map g xs)"
  by (induction xs) simp_all

theorem popup_visibility_witness:
  "observe (\<lambda>t. map (\<lambda>kw. (fst kw, visible (snd kw))) (popups_of t))
     (run (fresh Missing {})
        [AddAccount, AddAccount, CreateWindow ''Steam 1'', CreateWindow ''Steam 2''])
     = Inr [(''Steam 1'', False), (''Steam 2'', True)]
   \<and> observe popups_of (run (fresh Missing {})
        [AddAccount, AddAccount, CreateWindow ''Steam 1'', CreateWindow ''Steam 2'',
         SwitchAccount ''Steam 1''])
     = Inr [(''Steam 1'', \<lparr>pid = 0, visible = True\<rparr>), (''Steam 2'', \<lparr>pid = 1, visible = False\<rparr>)]"
proof -
  let ?es = "[AddAccount, AddAccount, CreateWindow ''Steam 1'', CreateWindow ''Steam 2'']"
  have st: "startup (\<lambda>j. []) (\<lambda>x. None) Missing {} = Inr (fresh Missing {})"
    by (simp add: startup_def loadConfig_def fresh_def)
  obtain s where s: "run (fresh Missing {}) ?es = Inr s"
    by (simp add: mb_eval name_eval)
  have cur: "currentName s = ''Steam 2''"
    and reg: "map fst (popups_of s) = [''Steam 1'', ''Steam 2'']"
    using s by (auto simp: mb_eval name_eval)
  have "\<forall>kw \<in> set (popups_of s). visible (snd kw) = (fst kw = ''Steam 2'')"
    using popup_visibility [of "\<lambda>j. []" "\<lambda>x. None" Missing "{}" "fresh Missing {}" ?es s] st s cur
    by simp
  then have vis: "map (\<lambda>kw. visible (snd kw)) (popups_of s) = [False, True]"
    using reg by (cases "popups_of s") auto
  have a: "observe (\<lambda>t. map (\<lambda>kw. (fst kw, visible (snd kw))) (popups_of t))
      (run (fresh Missing {}) ?es) = Inr [(''Steam 1'', False), (''Steam 2'', True)]"
    using s reg vis by (simp add: observe_def map_pair_zip)
  have b: "observe popups_of (run (fresh Missing {}) (?es @ [SwitchAccount ''Steam 1'']))
     = Inr [(''Steam 1'', \<lparr>pid = 0, visible = True\<rparr>), (''Steam 2'', \<lparr>pid = 1, visible = False\<rparr>)]"
    by (simp add: mb_eval name_eval)
  show ?thesis using a b by simp
qed

lemmas health_eval = apply_actions_def set_view_def postLoadHealthcheck_def postBlankJS_def
  maybeReloadOnBlank_def after_html_def isBlank_def javaScriptConsoleMessage_def
  onRenderCrash_def fatal_substrings_def


section \<open>The focus pointer: claim C3\<close>

text \<open>
  C3. The code breaks the claim when the last profile is deleted: \<open>deleteProfile\<close> clears
  \<open>lastActive\<close> but leaves \<open>currentName\<close> on the deleted profile. From a start with no
  profiles, adding a profile and deleting it leaves the registry empty and the focus
  pointer on \<open>Steam 1\<close>; \<open>navigateCurrent\<close>, which trusts a non-empty pointer to name a
  view, then raises \<open>KeyError\<close>.
\<close>

theorem stale_focus_after_last_delete:
  "observe currentName (run (fresh Missing {}) [AddAccount, DeleteProfile ''Steam 1'' True True])
     = Inr ''Steam 1''
   \<and> observe browsers (run (fresh Missing {}) [AddAccount, DeleteProfile ''Steam 1'' True True])
     = Inr []
   \<and> run (fresh Missing {})
       [AddAccount, DeleteProfile ''Steam 1'' True True, NavigateCurrent ''https://steamcommunity.com/'']
     = Inl KeyError"
  by (simp add: mb_eval name_eval)


section \<open>Recovery and focus: claim C2\<close>

text \<open>
  C2, as the claim states it, fails: \<open>_postBlankJS\<close>, \<open>_maybeReloadOnBlank\<close>, \<open>after_html\<close>
  and the 150 ms reload timers read no focus. A health check that passed the focus test,
  followed by a switch to another profile, still ends in a reload of the view that is no
  longer focused; so does a console failure followed by a switch.
\<close>

theorem reload_after_defocus_counterexample:
  "observe reload_log (run (fresh Missing {})
     [AddAccount, AddAccount, SwitchAccount ''Steam 1'',
      LoadProgress ''Steam 1'' 100, Deliver ''Steam 1'' HealthTimerFires,
      SwitchAccount ''Steam 2'',
      Deliver ''Steam 1'' BlankTimerFires,
      Deliver ''Steam 1'' (ScriptArrives (JsDict [(''empty'', True)]) 10000)])
     = Inr [(''Steam 1'', ''Steam 2'')]
   \<and> observe reload_log (run (fresh Missing {})
     [AddAccount, AddAccount, SwitchAccount ''Steam 1'',
      Console ''Steam 1'' False ''ChunkLoadError'' 10000,
      SwitchAccount ''Steam 2'',
      Deliver ''Steam 1'' ReloadTimerFires])
     = Inr [(''Steam 1'', ''Steam 2'')]"
  by (simp add: mb_eval name_eval health_eval)

lemma unfocused_console:
  "cur \<noteq> profile_name v \<Longrightarrow>
   javaScriptConsoleMessage v is_error msg cur now = (v, if is_error then [Warn] else [])"
  by (simp add: javaScriptConsoleMessage_def Let_def)

lemma unfocused_crash: "cur \<noteq> profile_name v \<Longrightarrow> onRenderCrash v cur now = (v, [])"
  by (simp add: onRenderCrash_def)

lemma unfocused_healthcheck: "cur \<noteq> profile_name v \<Longrightarrow> postLoadHealthcheck v cur = []"
  by (simp add: postLoadHealthcheck_def)

lemma set_view_same: "map_of (browsers s) name = Some v \<Longrightarrow> set_view s name v = s"
  by (simp add: set_view_def update_triv)

lemma apply_warn:
  "reload_log (apply_actions s name (if is_error then [Warn] else [])) = reload_log s
   \<and> pending (apply_actions s name (if is_error then [Warn] else [])) = pending s
   \<and> browsers (apply_actions s name (if is_error then [Warn] else [])) = browsers s"
  by (simp add: apply_actions_def)

lemma unfocused_step:
  assumes v: "map_of (browsers s) name = Some v"
    and nf: "profile_name v \<noteq> currentName s"
    and e: "detection_entry name e"
    and st: "step s e = Inr t"
  shows "reload_log t = reload_log s \<and> set (pending t) \<subseteq> set (pending s)
         \<and> browsers t = browsers s"
proof (cases e)
  case (Console n is_error msg now)
  then have n: "n = name" using e by (simp add: detection_entry_def)
  have "t = apply_actions s name (if is_error then [Warn] else [])"
    using st Console n v nf unfocused_console [of "currentName s" v is_error msg now]
    by (simp add: set_view_same)
  then show ?thesis using apply_warn [of s name is_error] by simp
next
  case (Crash n now)
  then have n: "n = name" using e by (simp add: detection_entry_def)
  have "t = s"
    using st Crash n v nf unfocused_crash [of "currentName s" v now]
    by (simp add: set_view_same apply_actions_def)
  then show ?thesis by simp
next
  case (Deliver n d)
  then have n: "n = name" and d: "d = StartupCheckFires \<or> d = HealthTimerFires"
    using e by (simp_all add: detection_entry_def)
  have hc: "postLoadHealthcheck v (currentName s) = []"
    using nf unfocused_healthcheck [of "currentName s" v] by simp
  have "t = s \<or> t = s\<lparr>pending := remove1 (name, kind d) (pending s)\<rparr>"
    using st Deliver n d v nf hc by (auto simp: apply_actions_def split: if_splits)
  then show ?thesis using set_remove1_subset [of "(name, kind d)" "pending s"] by auto
qed (use e in \<open>simp_all add: detection_entry_def\<close>)

lemma run_append:
  "run s (es @ fs) = (case run s es of Inl err \<Rightarrow> Inl err | Inr t \<Rightarrow> run t fs)"
  by (induction es arbitrary: s) (simp_all split: sum.splits)


text \<open>
  C2, amended. Every step that detects a failure checks the focus when it runs: for a view
  whose profile is not the focused one, the console handler does nothing but log, the
  crash handler and \<open>postLoadHealthcheck\<close> do nothing, and in the main window a console
  message, a crash or a health-check timer for such a view issues no reload, schedules no
  callback and leaves every view as it was.
\<close>

theorem detection_focus_gate:
  "(cur \<noteq> profile_name v
      \<longrightarrow> javaScriptConsoleMessage v is_error msg cur now = (v, if is_error then [Warn] else [])
          \<and> onRenderCrash v cur now = (v, [])
          \<and> postLoadHealthcheck v cur = [])
   \<and> (map_of (browsers s) name = Some w \<and> profile_name w \<noteq> currentName s
        \<and> detection_entry name e \<and> step s e = Inr t
      \<longrightarrow> reload_log t = reload_log s \<and> set (pending t) \<subseteq> set (pending s)
          \<and> browsers t = browsers s)"
  using unfocused_console [of cur v is_error msg now] unfocused_crash [of cur v now]
    unfocused_healthcheck [of cur v] unfocused_step [of s name w e t]
  by blast

theorem detection_focus_gate_witness:
  "onRenderCrash (new_view ''Steam 1'') ''Steam 2'' 10000 = (new_view ''Steam 1'', [])
   \<and> postLoadHealthcheck (new_view ''Steam 1'') ''Steam 2'' = []
   \<and> observe reload_log (run (fresh Missing {})
        [AddAccount, AddAccount, LoadProgress ''Steam 1'' 100, Deliver ''Steam 1'' HealthTimerFires])
      = Inr []
   \<and> observe pending (run (fresh Missing {})
        [AddAccount, AddAccount, LoadProgress ''Steam 1'' 100, Deliver ''Steam 1'' HealthTimerFires])
      = Inr [(''Steam 1'', StartupCheck), (''Steam 2'', StartupCheck)]"
proof -
  let ?es = "[AddAccount, AddAccount, LoadProgress ''Steam 1'' 100]"
  let ?e = "Deliver ''Steam 1'' HealthTimerFires"
  have pn: "''Steam 2'' \<noteq> profile_name (new_view ''Steam 1'')"
    by (simp add: new_view_def)
  have a: "onRenderCrash (new_view ''Steam 1'') ''Steam 2'' 10000 = (new_view ''Steam 1'', [])"
    "postLoadHealthcheck (new_view ''Steam 1'') ''Steam 2'' = []"
    using detection_focus_gate [of "''Steam 2''" "new_view ''Steam 1''"] pn by blast+
  obtain s where s: "run (fresh Missing {}) ?es = Inr s"
    by (simp add: mb_eval name_eval)
  obtain w where w: "map_of (browsers s) ''Steam 1'' = Some w"
    and nf: "profile_name w \<noteq> currentName s"
    and log: "reload_log s = []"
    and pend: "pending s = [(''Steam 1'', StartupCheck), (''Steam 2'', StartupCheck),
        (''Steam 1'', HealthTimer)]"
    using s by (auto simp: mb_eval name_eval)
  obtain t where t: "step s ?e = Inr t"
    by simp
  have de: "detection_entry ''Steam 1'' ?e"
    by (simp add: detection_entry_def)
  have g: "reload_log t = reload_log s" "set (pending t) \<subseteq> set (pending s)"
    using detection_focus_gate [of _ _ _ _ _ s "''Steam 1''" w ?e t] w nf de t by blast+
  have "pending t = [(''Steam 1'', StartupCheck), (''Steam 2'', StartupCheck)]"
    using t w nf pend unfocused_healthcheck [of "currentName s" w]
    by (auto simp: apply_actions_def)
  moreover have "run (fresh Missing {}) (?es @ [?e]) = Inr t"
    using s t by (simp only: run_append sum.case run.simps)
  ultimately show ?thesis
    using a g log by (simp add: observe_def)
qed

section \<open>Facts about deleting a profile\<close>

lemma map_of_show_None:
  "map_of (map (\<lambda>kw. (fst kw, f kw)) ps) k = None \<longleftrightarrow> map_of ps k = None"
  by (induction ps) auto

lemma switchAccount_fields:
  "profiles (switchAccount u acc) = profiles u"
  "lastUrls (switchAccount u acc) = lastUrls u"
  "dirs (switchAccount u acc) = dirs u"
  "warnings (switchAccount u acc) = warnings u"
  by (simp_all add: switchAccount_def Let_def showPopupsFor_def saveConfig_def split: option.splits)

lemma switchAccount_registry:
  "map_of (browsers u) name = None \<Longrightarrow> map_of (browsers (switchAccount u acc)) name = None"
  by (auto simp: switchAccount_def Let_def showPopupsFor_def saveConfig_def update_conv'
      split: option.splits)

lemma switchAccount_popup_keys:
  "map_of (popupsByProfile u) name = None \<Longrightarrow>
   map_of (popupsByProfile (switchAccount u acc)) name = None"
  by (simp add: switchAccount_def Let_def showPopupsFor_def saveConfig_def map_of_show_None
      split: option.splits)

lemma switchAccount_saved:
  "config u = Document (config_doc u) \<Longrightarrow>
   config (switchAccount u acc) = Document (config_doc (switchAccount u acc))"
  by (simp add: switchAccount_def Let_def showPopupsFor_def saveConfig_def config_doc_def
      split: option.splits)

lemma deleteProfile_deleted:
  "map_of (browsers s) name = Some v \<Longrightarrow>
   deleteProfile s name True rmtree_ok =
     (if lastActive (deleted s name rmtree_ok) \<noteq> []
      then switchAccount (deleted s name rmtree_ok) (lastActive (deleted s name rmtree_ok))
      else deleted s name rmtree_ok)"
  unfolding deleteProfile_def deleted_def Let_def
  by (simp only: option.simps if_False not_True_eq_False simp_thms)

lemma deleted_fields:
  "map_of (browsers (deleted s name r)) name = None"
  "map_of (popupsByProfile (deleted s name r)) name = None"
  "map_of (lastUrls (deleted s name r)) name = None"
  "profiles (deleted s name r) = remove1 name (profiles s)"
  "lastUrls (deleted s name r) = AList.delete name (lastUrls s)"
  "config (deleted s name r) = Document (config_doc (deleted s name r))"
  "dirs (deleted s name r)
     = (if r then dirs s - {profile_path name} else insert (profile_path name) (dirs s))"
  "warnings (deleted s name r)
     = (if r then warnings s else warnings s @ [''Failed to remove profile dir''])"
  by (simp_all add: deleted_def Let_def profileDir_def saveConfig_def config_doc_def delete_conv')

lemma deleteProfile_fields:
  assumes "map_of (browsers s) name \<noteq> None"
  shows "map_of (browsers (deleteProfile s name True r)) name = None"
    and "map_of (popupsByProfile (deleteProfile s name True r)) name = None"
    and "map_of (lastUrls (deleteProfile s name True r)) name = None"
    and "profiles (deleteProfile s name True r) = remove1 name (profiles s)"
    and "lastUrls (deleteProfile s name True r) = AList.delete name (lastUrls s)"
    and "config (deleteProfile s name True r)
          = Document (config_doc (deleteProfile s name True r))"
    and "dirs (deleteProfile s name True r)
          = (if r then dirs s - {profile_path name} else insert (profile_path name) (dirs s))"
    and "warnings (deleteProfile s name True r)
          = (if r then warnings s else warnings s @ [''Failed to remove profile dir''])"
proof -
  let ?u = "deleted s name r"
  let ?t = "deleteProfile s name True r"
  obtain v where v: "map_of (browsers s) name = Some v"
    using assms by blast
  have d: "?t = switchAccount ?u (lastActive ?u) \<or> ?t = ?u"
    using deleteProfile_deleted [OF v, of r] by (cases "lastActive ?u \<noteq> []") simp_all
  show "map_of (browsers ?t) name = None"
    using d deleted_fields(1) [of s name r] switchAccount_registry [of ?u name] by auto
  show "map_of (popupsByProfile ?t) name = None"
    using d deleted_fields(2) [of s name r] switchAccount_popup_keys [of ?u name] by auto
  show "map_of (lastUrls ?t) name = None"
    using d deleted_fields(3) [of s name r] by (auto simp: switchAccount_fields)
  show "profiles ?t = remove1 name (profiles s)"
    using d deleted_fields(4) [of s name r] by (auto simp: switchAccount_fields)
  show "lastUrls ?t = AList.delete name (lastUrls s)"
    using d deleted_fields(5) [of s name r] by (auto simp: switchAccount_fields)
  show "config ?t = Document (config_doc ?t)"
    using d deleted_fields(6) [of s name r] switchAccount_saved [of ?u] by auto
  show "dirs ?t = (if r then dirs s - {profile_path name} else insert (profile_path name) (dirs s))"
    using d deleted_fields(7) [of s name r] by (auto simp: switchAccount_fields)
  show "warnings ?t = (if r then warnings s else warnings s @ [''Failed to remove profile dir''])"
    using d deleted_fields(8) [of s name r] by (auto simp: switchAccount_fields)
qed

lemma apply_actions_profiles: "profiles (apply_actions s name acts) = profiles s"
  unfolding apply_actions_def
proof (induction acts arbitrary: s)
  case Nil
  show ?case by simp
next
  case (Cons a acts)
  have "profiles (apply_action name s a) = profiles s" by (cases a) simp_all
  then show ?case using Cons.IH [of "apply_action name s a"] by simp
qed

lemma deliver_profiles: "profiles (deliver s name v d) = profiles s"
  by (cases d) (simp_all add: apply_actions_profiles set_view_def)

lemma createProfile_profiles: "profiles (createProfile s name b) = profiles s"
  by (simp add: createProfile_def Let_def profileDir_def switchAccount_fields)

lemma addAccount_profiles:
  "addAccount s = Inr t \<Longrightarrow> distinct (profiles s) \<Longrightarrow> distinct (profiles t)"
proof -
  assume h: "addAccount s = Inr t" and d: "distinct (profiles s)"
  let ?acc = "nextSteamName s"
  let ?s1 = "createProfile s ?acc True"
  let ?s2 = "if ?acc \<notin> set (profiles ?s1) then ?s1\<lparr>profiles := profiles ?s1 @ [?acc]\<rparr> else ?s1"
  let ?s3 = "saveConfig (?s2\<lparr>lastActive := ?acc\<rparr>)"
  have "distinct (profiles ?s3)"
    using d by (simp add: saveConfig_def createProfile_profiles)
  moreover have "t = ?s3 \<or> navigateCurrent ?s3 (restore_url ?s3 ?acc) = Inr t"
    using h by (auto simp: addAccount_def Let_def split: option.splits if_splits)
  moreover have "\<And>u x. navigateCurrent u x = Inr t \<Longrightarrow> profiles t = profiles u"
    by (auto simp: navigateCurrent_def split: if_splits option.splits)
  ultimately show ?thesis by metis
qed

lemma deleteProfile_profiles:
  "distinct (profiles s) \<Longrightarrow> distinct (profiles (deleteProfile s name c r))"
proof (cases "map_of (browsers s) name \<noteq> None \<and> c")
  case True
  assume "distinct (profiles s)"
  then show ?thesis using True deleteProfile_fields(4) [of s name r] by simp
next
  case False
  assume "distinct (profiles s)"
  then show ?thesis using False by (auto simp: deleteProfile_def)
qed

lemma step_distinct_profiles:
  "distinct (profiles s) \<Longrightarrow> step s e = Inr t \<Longrightarrow> distinct (profiles t)"
proof (cases e)
  case AddAccount
  assume "distinct (profiles s)" "step s e = Inr t"
  then show ?thesis using AddAccount addAccount_profiles by simp
next
  case (DeleteProfile name c r)
  assume "distinct (profiles s)" "step s e = Inr t"
  then show ?thesis using DeleteProfile deleteProfile_profiles by auto
next
  case (NavigateCurrent u)
  assume "distinct (profiles s)" "step s e = Inr t"
  then show ?thesis
    using NavigateCurrent by (auto simp: navigateCurrent_def split: if_splits option.splits)
next
  case (Deliver name d)
  assume "distinct (profiles s)" "step s e = Inr t"
  then show ?thesis
    using Deliver by (auto simp: deliver_profiles split: if_splits option.splits)
qed (auto simp: switchAccount_fields createWindow_def registerPopup_def unregisterPopup_def
    MultiBrowser_onUrlChanged_def saveConfig_def set_view_def apply_actions_profiles
    split: option.splits if_splits)

lemma run_distinct_profiles:
  "distinct (profiles s) \<Longrightarrow> run s es = Inr t \<Longrightarrow> distinct (profiles t)"
proof (induction es arbitrary: s)
  case Nil
  then show ?case by simp
next
  case (Cons e es)
  then obtain s' where s': "step s e = Inr s'" "run s' es = Inr t"
    by (auto split: sum.splits)
  have "distinct (profiles s')" using Cons.prems(1) s'(1) by (rule step_distinct_profiles)
  then show ?case using s'(2) by (rule Cons.IH)
qed

section \<open>Deleting a profile: claim C6\<close>



section \<open>Facts about the config\<close>

lemma update_fresh_key: "k \<notin> fst ` set al \<Longrightarrow> AList.update k v al = al @ [(k, v)]"
  by (induction al) auto

lemma load_urls_acc:
  "distinct (map fst (acc @ al)) \<Longrightarrow>
   foldl (\<lambda>d p. AList.update (fst p) (py_str repr (snd p)) d) acc
     (map (\<lambda>p. (fst p, JStr (snd p))) al) = acc @ al"
proof (induction al arbitrary: acc)
  case Nil
  show ?case by simp
next
  case (Cons p al)
  have k: "fst p \<notin> fst ` set acc"
    using Cons.prems by auto
  have "AList.update (fst p) (py_str repr (JStr (snd p))) acc = acc @ [p]"
    using update_fresh_key [OF k] by (simp add: py_str_def)
  moreover have "distinct (map fst ((acc @ [p]) @ al))"
    using Cons.prems by simp
  ultimately show ?case
    using Cons.IH [of "acc @ [p]"] by simp
qed

lemma load_urls:
  "distinct (map fst al) \<Longrightarrow>
   foldl (\<lambda>d p. AList.update (fst p) (py_str repr (snd p)) d) []
     (map (\<lambda>p. (fst p, JStr (snd p))) al) = al"
  using load_urls_acc [of "[]" al repr] by simp

lemma py_str_JStr: "py_str repr (JStr x) = x"
  by (simp add: py_str_def)

lemma loadConfig_saved:
  "distinct (map fst (lastUrls s)) \<Longrightarrow>
   loadConfig repr atoi (s0\<lparr>config := config (saveConfig s)\<rparr>)
   = Inr (s0\<lparr>config := config (saveConfig s), profiles := profiles s, lastActive := lastActive s,
             lastUrls := lastUrls s, accountsVisible := accountsVisible s,
             accountsPanelDefaultWidth := accountsPanelDefaultWidth s,
             leftBarWidth := leftBarWidth s,
             geometry := (if geometry s \<noteq> [] then geometry s else geometry s0)\<rparr>)"
  by (simp add: loadConfig_def saveConfig_def config_doc_def dict_get_def py_iter_def
      py_int_def py_bool_def py_str_JStr load_urls comp_def Let_def)

lemma apply_actions_lastUrls: "lastUrls (apply_actions s name acts) = lastUrls s"
  unfolding apply_actions_def
proof (induction acts arbitrary: s)
  case Nil
  show ?case by simp
next
  case (Cons a acts)
  have "lastUrls (apply_action name s a) = lastUrls s" by (cases a) simp_all
  then show ?case using Cons.IH [of "apply_action name s a"] by simp
qed

lemma deliver_lastUrls: "lastUrls (deliver s name v d) = lastUrls s"
  by (cases d) (simp_all add: apply_actions_lastUrls set_view_def)

lemma addAccount_lastUrls: "addAccount s = Inr t \<Longrightarrow> lastUrls t = lastUrls s"
  by (auto simp: addAccount_def Let_def createProfile_def profileDir_def switchAccount_fields
      saveConfig_def navigateCurrent_def split: option.splits if_splits)

lemma deleteProfile_lastUrls:
  "lastUrls (deleteProfile s name c r) = lastUrls s
   \<or> lastUrls (deleteProfile s name c r) = AList.delete name (lastUrls s)"
proof (cases "map_of (browsers s) name \<noteq> None \<and> c")
  case True
  then show ?thesis using deleteProfile_fields(5) [of s name r] by simp
next
  case False
  then show ?thesis by (auto simp: deleteProfile_def)
qed

lemma step_distinct_urls:
  "distinct (map fst (lastUrls s)) \<Longrightarrow> step s e = Inr t \<Longrightarrow> distinct (map fst (lastUrls t))"
proof (cases e)
  case AddAccount
  assume "distinct (map fst (lastUrls s))" "step s e = Inr t"
  then show ?thesis using AddAccount addAccount_lastUrls [of s t] by simp
next
  case (DeleteProfile name c r)
  assume "distinct (map fst (lastUrls s))" "step s e = Inr t"
  then show ?thesis
    using DeleteProfile deleteProfile_lastUrls [of s name c r] distinct_delete [of "lastUrls s" name]
    by auto
next
  case (NavigateCurrent u)
  assume "distinct (map fst (lastUrls s))" "step s e = Inr t"
  then show ?thesis
    using NavigateCurrent by (auto simp: navigateCurrent_def split: if_splits option.splits)
next
  case (ViewUrlChanged name u)
  assume "distinct (map fst (lastUrls s))" "step s e = Inr t"
  then show ?thesis
    using ViewUrlChanged
    by (auto simp: MultiBrowser_onUrlChanged_def saveConfig_def set_view_def distinct_update
        split: option.splits if_splits)
next
  case (Deliver name d)
  assume "distinct (map fst (lastUrls s))" "step s e = Inr t"
  then show ?thesis
    using Deliver by (auto simp: deliver_lastUrls split: if_splits option.splits)
qed (auto simp: switchAccount_fields createWindow_def registerPopup_def unregisterPopup_def
    set_view_def apply_actions_lastUrls split: option.splits if_splits)

lemma run_distinct_urls:
  "distinct (map fst (lastUrls s)) \<Longrightarrow> run s es = Inr t \<Longrightarrow> distinct (map fst (lastUrls t))"
proof (induction es arbitrary: s)
  case Nil
  then show ?case by simp
next
  case (Cons e es)
  then obtain s' where s': "step s e = Inr s'" "run s' es = Inr t"
    by (auto split: sum.splits)
  have "distinct (map fst (lastUrls s'))" using Cons.prems(1) s'(1) by (rule step_distinct_urls)
  then show ?case using s'(2) by (rule Cons.IH)
qed

section \<open>The config round trip: claim C9\<close>

text \<open>
  C9. For every state, whose last-URL dictionary has each key once (as a dictionary has,
  and as every run keeps it, \<open>run_distinct_urls\<close>), loading the document that \<open>saveConfig\<close>
  wrote, into any state, succeeds and gives the same ordered profile list, the same last
  active name and the same last-URL dictionary, entry for entry and in the same order.
\<close>

theorem config_roundtrip:
  "distinct (map fst (lastUrls s))
   \<longrightarrow> observe profiles (loadConfig repr atoi (s0\<lparr>config := config (saveConfig s)\<rparr>))
         = Inr (profiles s)
       \<and> observe lastActive (loadConfig repr atoi (s0\<lparr>config := config (saveConfig s)\<rparr>))
         = Inr (lastActive s)
       \<and> observe lastUrls (loadConfig repr atoi (s0\<lparr>config := config (saveConfig s)\<rparr>))
         = Inr (lastUrls s)"
proof
  assume "distinct (map fst (lastUrls s))"
  then have "loadConfig repr atoi (s0\<lparr>config := config (saveConfig s)\<rparr>)
      = Inr (s0\<lparr>config := config (saveConfig s), profiles := profiles s, lastActive := lastActive s,
             lastUrls := lastUrls s, accountsVisible := accountsVisible s,
             accountsPanelDefaultWidth := accountsPanelDefaultWidth s,
             leftBarWidth := leftBarWidth s,
             geometry := (if geometry s \<noteq> [] then geometry s else geometry s0)\<rparr>)"
    by (rule loadConfig_saved)
  then show "observe profiles (loadConfig repr atoi (s0\<lparr>config := config (saveConfig s)\<rparr>))
         = Inr (profiles s)
       \<and> observe lastActive (loadConfig repr atoi (s0\<lparr>config := config (saveConfig s)\<rparr>))
         = Inr (lastActive s)
       \<and> observe lastUrls (loadConfig repr atoi (s0\<lparr>config := config (saveConfig s)\<rparr>))
         = Inr (lastUrls s)"
    by (simp add: observe_def)
qed

theorem config_roundtrip_witness:
  "observe profiles (loadConfig (\<lambda>j. []) (\<lambda>x. None)
      ((fresh Missing {})\<lparr>config := config (saveConfig
         ((fresh Missing {})\<lparr>profiles := [''Steam 1'', ''Steam 2''], lastActive := ''Steam 2'',
            lastUrls := [(''Steam 2'', ''https://steamcommunity.com/''),
                         (''Steam 1'', ''https://store.steampowered.com/'')]\<rparr>))\<rparr>))
     = Inr [''Steam 1'', ''Steam 2'']
   \<and> observe lastActive (loadConfig (\<lambda>j. []) (\<lambda>x. None)
      ((fresh Missing {})\<lparr>config := config (saveConfig
         ((fresh Missing {})\<lparr>profiles := [''Steam 1'', ''Steam 2''], lastActive := ''Steam 2'',
            lastUrls := [(''Steam 2'', ''https://steamcommunity.com/''),
                         (''Steam 1'', ''https://store.steampowered.com/'')]\<rparr>))\<rparr>))
     = Inr ''Steam 2''
   \<and> observe lastUrls (loadConfig (\<lambda>j. []) (\<lambda>x. None)
      ((fresh Missing {})\<lparr>config := config (saveConfig
         ((fresh Missing {})\<lparr>profiles := [''Steam 1'', ''Steam 2''], lastActive := ''Steam 2'',
            lastUrls := [(''Steam 2'', ''https://steamcommunity.com/''),
                         (''Steam 1'', ''https://store.steampowered.com/'')]\<rparr>))\<rparr>))
     = Inr [(''Steam 2'', ''https://steamcommunity.com/''),
            (''Steam 1'', ''https://store.steampowered.com/'')]"
proof -
  let ?s = "(fresh Missing {})\<lparr>profiles := [''Steam 1'', ''Steam 2''], lastActive := ''Steam 2'',
            lastUrls := [(''Steam 2'', ''https://steamcommunity.com/''),
                         (''Steam 1'', ''https://store.steampowered.com/'')]\<rparr>"
  have d: "distinct (map fst (lastUrls ?s))"
    by simp
  show ?thesis
    using config_roundtrip [of ?s "\<lambda>j. []" "\<lambda>x. None" "fresh Missing {}"] d
    by simp
qed

section \<open>Facts about profile names\<close>










section \<open>Adding a profile: claim C10\<close>



end
